theory Spec2Isabelle
  imports Main "HOL-Library.Sublist"
begin

section \<open>Data model\<close>

text \<open>
  Values produced by \<^verbatim>\<open>yaml.safe_load\<close>.  The code only ever asks whether a value is
  a \<^verbatim>\<open>str\<close>, a \<^verbatim>\<open>list\<close> or a \<^verbatim>\<open>dict\<close>; every other scalar takes the same
  branches, so the scalars are \<open>YNull\<close>, \<open>YBool\<close>, \<open>YInt\<close> and \<open>YStr\<close>.
  A \<^verbatim>\<open>dict\<close> is the list of its items in insertion order, with string keys.
  Strings are lists of code points below 256.
\<close>

datatype yaml =
    YNull
  | YBool bool
  | YInt int
  | YStr string
  | YList "yaml list"
  | YDict "(string \<times> yaml) list"

text \<open>
  Every exception the modelled functions raise.  The constructors of the second group
  stand for the messages of \<^verbatim>\<open>parse_file_paths\<close>, those of the third and fourth group
  for the messages of \<^verbatim>\<open>compute_mapping\<close>, \<^verbatim>\<open>get_lib_paths\<close> and \<^verbatim>\<open>parse\<close>; a
  wrapped exception (\<^verbatim>\<open>except Exception as e: raise Exception(f'... - {e}')\<close>) keeps its
  cause.
\<close>

datatype error =
    PyAttributeError
  | PyKeyError string
  | PyTypeError
  | PyValueError
  | PyUnboundLocalError string
  | PyRecursionError
  | DanglingReference
  | GlobbingException
  | ShoelacesCrossed
  | NoValidListExpression
  | NoValidRangeExpression
  | UpperNotGreaterThanLower
  | NoRangeOrListExpression
  | UnbalancedBrackets
  | SourcePathMapping error
  | SourceNoPaths
  | SourceNotExisting string
  | DestinationPathMapping error
  | DestinationNoPaths
  | DestinationHasExpansion
  | SymlinkWithExpansion
  | LibraryPaths error
  | ConfigDoesNotExist string
  | ConfigUnreadable string
  | ConfigUnparsable string
  | ConfigNotADictionary string
  | IncludeNotAList string
  | IncludeParsing string error

text \<open>
  What the functions read from their surroundings: the module global
  \<^verbatim>\<open>utils.TEMPLATE_DIR\<close>, the process (\<^verbatim>\<open>os.getcwd\<close>, \<^verbatim>\<open>os.path.expanduser\<close>), the
  file system (\<^verbatim>\<open>os.path.exists\<close>, \<^verbatim>\<open>os.path.isfile\<close>, \<^verbatim>\<open>os.path.realpath\<close>,
  \<^verbatim>\<open>open(path).read()\<close>, \<^verbatim>\<open>glob.glob\<close>, \<^verbatim>\<open>pathlib.Path(base).glob(spec)\<close> restricted
  to regular files) and the YAML parser.  \<open>None\<close> is a raised exception.
\<close>

record env =
  TEMPLATE_DIR :: string
  getcwd :: string
  expanduser :: "string \<Rightarrow> string"
  realpath :: "string \<Rightarrow> string"
  path_exists :: "string \<Rightarrow> bool"
  isfile :: "string \<Rightarrow> bool"
  read_text :: "string \<Rightarrow> string option"
  safe_load :: "string \<Rightarrow> yaml option"
  glob_glob :: "string \<Rightarrow> string list option"
  pathlib_glob_files :: "string \<Rightarrow> string \<Rightarrow> string list option"

section \<open>Dictionaries\<close>

text \<open>\<^verbatim>\<open>d[k] = v\<close>: an existing key keeps its place, a new key is appended.\<close>

fun dict_set :: "string \<Rightarrow> 'v \<Rightarrow> (string \<times> 'v) list \<Rightarrow> (string \<times> 'v) list" where
  "dict_set k v [] = [(k, v)]"
| "dict_set k v ((k', v') # kvs) =
     (if k' = k then (k, v) # kvs else (k', v') # dict_set k v kvs)"

section \<open>Deep merge (utils.py, merge_yaml_data)\<close>

text \<open>
  The three \<^verbatim>\<open>isinstance\<close> tests in source order, then the fall-through
  \<^verbatim>\<open>return data2\<close>.  The loop over \<^verbatim>\<open>data2.items()\<close> is the \<open>fold\<close>, its
  accumulator is \<^verbatim>\<open>return_dict\<close>, which starts as the copy of \<^verbatim>\<open>data1\<close>.
\<close>

fun merge_yaml_data :: "yaml \<Rightarrow> yaml \<Rightarrow> yaml" where
  "merge_yaml_data (YStr s1) (YStr s2) = YStr s2"
| "merge_yaml_data (YList l1) (YList l2) = YList (l1 @ l2)"
| "merge_yaml_data (YDict d1) (YDict d2) =
     YDict (fold (\<lambda>kv return_dict.
                    (case map_of return_dict (fst kv) of
                       Some old \<Rightarrow> dict_set (fst kv) (merge_yaml_data old (snd kv)) return_dict
                     | None \<Rightarrow> dict_set (fst kv) (snd kv) return_dict))
                 d2 d1)"
| "merge_yaml_data data1 data2 = data2"

section \<open>Exceptions as values\<close>

definition ebind :: "error + 'a \<Rightarrow> ('a \<Rightarrow> error + 'b) \<Rightarrow> error + 'b" where
  "ebind r f = (case r of Inl err \<Rightarrow> Inl err | Inr x \<Rightarrow> f x)"

text \<open>\<^verbatim>\<open>try: ... except Exception as e: raise Exception(f'... - {e}')\<close>.\<close>

definition wrap :: "(error \<Rightarrow> error) \<Rightarrow> error + 'a \<Rightarrow> error + 'a" where
  "wrap f r = (case r of Inl err \<Rightarrow> Inl (f err) | Inr x \<Rightarrow> Inr x)"

text \<open>A list comprehension whose body may raise: the first exception ends it.\<close>

fun map_err :: "('a \<Rightarrow> error + 'b) \<Rightarrow> 'a list \<Rightarrow> error + 'b list" where
  "map_err f [] = Inr []"
| "map_err f (x # xs) = ebind (f x) (\<lambda>y. ebind (map_err f xs) (\<lambda>ys. Inr (y # ys)))"

text \<open>
  A \<^verbatim>\<open>str\<close> method called on a YAML value (\<^verbatim>\<open>template_path.startswith('/')\<close> in
  \<^verbatim>\<open>get_path\<close>): any value but a string has no such attribute.
\<close>

definition str_attr :: "yaml \<Rightarrow> error + string" where
  "str_attr v = (case v of YStr s \<Rightarrow> Inr s | _ \<Rightarrow> Inl PyAttributeError)"

section \<open>Python string operations\<close>

definition startswith :: "string \<Rightarrow> string \<Rightarrow> bool" where
  "startswith s p = (take (length p) s = p)"

text \<open>\<^verbatim>\<open>sub in s\<close> for strings.\<close>

fun contains :: "string \<Rightarrow> string \<Rightarrow> bool" where
  "contains [] sub = (sub = [])"
| "contains (c # cs) sub = (startswith (c # cs) sub \<or> contains cs sub)"

text \<open>\<^verbatim>\<open>s.split(c)\<close> for a one-character separator: never empty.\<close>

fun split_char :: "char \<Rightarrow> string \<Rightarrow> string list" where
  "split_char c [] = [[]]"
| "split_char c (x # xs) =
     (if x = c then [] # split_char c xs
      else (case split_char c xs of
              [] \<Rightarrow> [[x]]
            | w # ws \<Rightarrow> (x # w) # ws))"

text \<open>\<^verbatim>\<open>sep.join(parts)\<close> for the separator \<^verbatim>\<open>/\<close>.\<close>

fun sep_join :: "string list \<Rightarrow> string" where
  "sep_join [] = []"
| "sep_join [p] = p"
| "sep_join (p # q # ps) = p @ CHR ''/'' # sep_join (q # ps)"

text \<open>
  \<^verbatim>\<open>s.replace(old, new)\<close>: every non-overlapping occurrence, left to right; an empty
  \<^verbatim>\<open>old\<close> matches before every character and at the end.
\<close>

function replace :: "string \<Rightarrow> string \<Rightarrow> string \<Rightarrow> string" where
  "replace s old new =
     (if old = [] then new @ concat (map (\<lambda>c. c # new) s)
      else if s = [] then []
      else if startswith s old then new @ replace (drop (length old) s) old new
      else hd s # replace (tl s) old new)"
  by pat_completeness auto
termination
  by (relation "measure (\<lambda>(s, old, new). length s)") auto

text \<open>The number a string of decimal digits denotes, and the decimal digits of a number.\<close>

definition digit_value :: "char \<Rightarrow> nat" where
  "digit_value c = of_char c - 48"

definition decimal_value :: "string \<Rightarrow> nat" where
  "decimal_value s = foldl (\<lambda>a c. 10 * a + digit_value c) 0 s"

definition digit_char :: "nat \<Rightarrow> char" where
  "digit_char d = char_of (48 + d)"

fun decimal_digits :: "nat \<Rightarrow> string" where
  "decimal_digits n = (if n < 10 then [digit_char n] else decimal_digits (n div 10) @ [digit_char (n mod 10)])"

text \<open>
  \<^verbatim>\<open>int(s)\<close> on a string of decimal digits and \<^verbatim>\<open>str(i)\<close> for \<open>i \<ge> 0\<close>: both raise
  \<^verbatim>\<open>ValueError\<close> when the string has more digits than \<^verbatim>\<open>sys.int_max_str_digits\<close>, which
  is 4300 unless the interpreter is told otherwise.
\<close>

definition int_max_str_digits :: nat where
  "int_max_str_digits = 4300"

definition py_int :: "string \<Rightarrow> error + nat" where
  "py_int s =
     (if length s > int_max_str_digits then Inl PyValueError else Inr (decimal_value s))"

definition py_str :: "nat \<Rightarrow> error + string" where
  "py_str n =
     (if length (decimal_digits n) > int_max_str_digits then Inl PyValueError
      else Inr (decimal_digits n))"

declare decimal_digits.simps [simp del]
declare replace.simps [simp del]

section \<open>POSIX path functions of the standard library\<close>

text \<open>
  \<^verbatim>\<open>os.path.join\<close>, \<^verbatim>\<open>normpath\<close>, \<^verbatim>\<open>abspath\<close>, \<^verbatim>\<open>relpath\<close> and \<^verbatim>\<open>dirname\<close>,
  transcribed from \<^verbatim>\<open>posixpath.py\<close>.
\<close>

definition path_join :: "string \<Rightarrow> string \<Rightarrow> string" where
  "path_join a b =
     (if startswith b ''/'' then b
      else if a = [] \<or> last a = CHR ''/'' then a @ b
      else a @ ''/'' @ b)"

text \<open>\<^verbatim>\<open>splitroot\<close>: exactly two leading slashes are kept, any other number is one.\<close>

definition initial_slashes :: "string \<Rightarrow> string" where
  "initial_slashes p =
     (if startswith p ''//'' \<and> \<not> startswith p ''///'' then ''//''
      else if startswith p ''/'' then ''/''
      else [])"

text \<open>One round of the loop of \<^verbatim>\<open>normpath\<close> over the components.\<close>

definition norm_step :: "bool \<Rightarrow> string list \<Rightarrow> string \<Rightarrow> string list" where
  "norm_step rooted new_comps cmp =
     (if cmp = [] \<or> cmp = ''.'' then new_comps
      else if cmp \<noteq> ''..'' \<or> (\<not> rooted \<and> new_comps = [])
              \<or> (new_comps \<noteq> [] \<and> last new_comps = ''..'')
      then new_comps @ [cmp]
      else if new_comps \<noteq> [] then butlast new_comps
      else new_comps)"

definition normpath :: "string \<Rightarrow> string" where
  "normpath path =
     (if path = [] then ''.''
      else let root = initial_slashes path;
               comps = split_char CHR ''/'' (drop (length root) path);
               new_comps = foldl (norm_step (root \<noteq> [])) [] comps;
               result = root @ sep_join new_comps
           in if result = [] then ''.'' else result)"

definition abspath :: "env \<Rightarrow> string \<Rightarrow> string" where
  "abspath e path =
     normpath (if startswith path ''/'' then path else path_join (getcwd e) path)"

text \<open>
  \<^verbatim>\<open>commonprefix([start_list, path_list])\<close> scans the smaller of the two lists against
  the larger; its length is that of their longest common prefix.
\<close>

definition relpath :: "env \<Rightarrow> string \<Rightarrow> string \<Rightarrow> error + string" where
  "relpath e path start =
     (if path = [] then Inl PyValueError
      else let start_list = filter (\<lambda>x. x \<noteq> []) (split_char CHR ''/'' (abspath e start));
               path_list = filter (\<lambda>x. x \<noteq> []) (split_char CHR ''/'' (abspath e path));
               i = length (longest_common_prefix start_list path_list);
               rel_list = replicate (length start_list - i) ''..'' @ drop i path_list
           in Inr (if rel_list = [] then ''.''
                   else foldl path_join (hd rel_list) (tl rel_list)))"

definition dirname :: "string \<Rightarrow> string" where
  "dirname p =
     (let head = rev (dropWhile (\<lambda>c. c \<noteq> CHR ''/'') (rev p))
      in if head \<noteq> [] \<and> \<not> list_all (\<lambda>c. c = CHR ''/'') head
         then rev (dropWhile (\<lambda>c. c = CHR ''/'') (rev head))
         else head)"

section \<open>Path resolution (utils.py, get_path)\<close>

definition get_path :: "env \<Rightarrow> string \<Rightarrow> string \<Rightarrow> string" where
  "get_path e template_path base_path =
     (if startswith template_path ''/'' then template_path
      else if startswith template_path ''~'' then expanduser e template_path
      else if base_path \<noteq> [] then
        (if contains base_path ''../''
         then abspath e (path_join base_path template_path)
         else normpath (path_join base_path template_path))
      else normpath (path_join (TEMPLATE_DIR e) template_path))"

section \<open>The two regular expressions (utils.py, LIST_REGEX and RANGE_REGEX)\<close>

text \<open>
  \<^verbatim>\<open>\d\<close> and \<^verbatim>\<open>\w\<close> on code points below 256, and the class \<^verbatim>\<open>[/\w\.\-\ ]\<close>.
\<close>

definition is_digit :: "char \<Rightarrow> bool" where
  "is_digit c = (let n = (of_char c :: nat) in 48 \<le> n \<and> n \<le> 57)"

definition is_word :: "char \<Rightarrow> bool" where
  "is_word c =
     (let n = (of_char c :: nat)
      in (48 \<le> n \<and> n \<le> 57) \<or> (65 \<le> n \<and> n \<le> 90) \<or> n = 95 \<or> (97 \<le> n \<and> n \<le> 122)
         \<or> n = 170 \<or> n = 178 \<or> n = 179 \<or> n = 181 \<or> n = 185 \<or> n = 186
         \<or> (188 \<le> n \<and> n \<le> 190) \<or> (192 \<le> n \<and> n \<le> 214)
         \<or> (216 \<le> n \<and> n \<le> 246) \<or> (248 \<le> n \<and> n \<le> 255))"

definition is_path_char :: "char \<Rightarrow> bool" where
  "is_path_char c =
     (c = CHR ''/'' \<or> is_word c \<or> c = CHR ''.'' \<or> c = CHR ''-'' \<or> c = CHR '' '')"

definition is_inner_char :: "char \<Rightarrow> bool" where
  "is_inner_char c = (is_path_char c \<or> c = CHR '','')"

text \<open>\<^verbatim>\<open>$\<close>: the end of the string, or just before a newline that ends it.\<close>

definition at_end :: "string \<Rightarrow> bool" where
  "at_end s = (s = [] \<or> s = [CHR 0x0A])"

text \<open>
  No class of either expression contains the character that must follow it, so each
  starred or plussed class takes the longest run and there is at most one match.
  \<open>LIST_REGEX_match\<close> returns the group \<^verbatim>\<open>expr\<close>; \<open>RANGE_REGEX_match\<close> returns the groups
  \<^verbatim>\<open>expr\<close>, \<^verbatim>\<open>lower\<close> and \<^verbatim>\<open>upper\<close>.
\<close>

definition LIST_REGEX_match :: "string \<Rightarrow> string option" where
  "LIST_REGEX_match s =
     (case dropWhile is_path_char s of
        [] \<Rightarrow> None
      | c # r \<Rightarrow>
          if c = CHR ''['' then
            (let inner = takeWhile is_inner_char r in
             if inner = [] then None
             else (case dropWhile is_inner_char r of
                     [] \<Rightarrow> None
                   | d # r' \<Rightarrow>
                       if d = CHR '']'' \<and> at_end (dropWhile is_path_char r')
                       then Some (''['' @ inner @ '']'')
                       else None))
          else None)"

definition RANGE_REGEX_match :: "string \<Rightarrow> (string \<times> string \<times> string) option" where
  "RANGE_REGEX_match s =
     (case dropWhile is_path_char s of
        [] \<Rightarrow> None
      | c # r \<Rightarrow>
          if c = CHR ''['' then
            (let lower = takeWhile is_digit r in
             if lower = [] then None
             else (case dropWhile is_digit r of
                     [] \<Rightarrow> None
                   | m # r' \<Rightarrow>
                       if m = CHR ''-'' then
                         (let upper = takeWhile is_digit r' in
                          if upper = [] then None
                          else (case dropWhile is_digit r' of
                                  [] \<Rightarrow> None
                                | d # r'' \<Rightarrow>
                                    if d = CHR '']'' \<and> at_end (dropWhile is_path_char r'')
                                    then Some (''['' @ lower @ ''-'' @ upper @ '']'', lower, upper)
                                    else None))
                       else None))
          else None)"

section \<open>Path specification expansion (utils.py, parse_file_paths)\<close>

definition parse_file_paths :: "env \<Rightarrow> string \<Rightarrow> error + string list" where
  "parse_file_paths e path_spec =
     (if CHR ''*'' \<notin> set path_spec \<and> CHR ''['' \<notin> set path_spec \<and> CHR '']'' \<notin> set path_spec
      then Inr [path_spec]
      else if CHR ''*'' \<in> set path_spec then
        (if \<not> contains path_spec ''**'' then
           (case glob_glob e path_spec of
              None \<Rightarrow> Inl GlobbingException
            | Some paths \<Rightarrow> Inr paths)
         else
           (let base_path = (if startswith path_spec ''/'' then ''/'' else ''.'');
                altered_path_spec =
                  (if startswith path_spec ''/''
                   then dropWhile (\<lambda>c. c = CHR ''/'') path_spec else path_spec)
            in case pathlib_glob_files e base_path altered_path_spec of
                 None \<Rightarrow> Inl GlobbingException
               | Some paths \<Rightarrow> Inr paths))
      else if CHR ''['' \<in> set path_spec \<and> CHR '']'' \<in> set path_spec then
        (let guts = tl (dropWhile (\<lambda>c. c \<noteq> CHR ''['') path_spec) in
         if CHR '']'' \<notin> set guts then Inl ShoelacesCrossed
         else
           (let guts = takeWhile (\<lambda>c. c \<noteq> CHR '']'') guts in
            if CHR '','' \<in> set guts then
              (case LIST_REGEX_match path_spec of
                 None \<Rightarrow> Inl NoValidListExpression
               | Some expr \<Rightarrow>
                   Inr (map (\<lambda>p. replace path_spec expr p)
                          (filter (\<lambda>p. p \<noteq> []) (split_char CHR '','' (butlast (tl expr))))))
            else if CHR ''-'' \<in> set guts then
              (case RANGE_REGEX_match path_spec of
                 None \<Rightarrow> Inl NoValidRangeExpression
               | Some (expr, lower, upper) \<Rightarrow>
                   ebind (py_int lower) (\<lambda>lb.
                   ebind (py_int upper) (\<lambda>ub.
                   if \<not> ub > lb then Inl UpperNotGreaterThanLower
                   else map_err (\<lambda>i. ebind (py_str i)
                                        (\<lambda>digits. Inr (replace path_spec expr digits)))
                          [lb..<ub + 1])))
            else Inl NoRangeOrListExpression))
      else Inl UnbalancedBrackets)"

section \<open>Path mappings (config.py, compute_mapping)\<close>

record mapping =
  chmod :: yaml
  chown :: yaml
  dst_key :: yaml
  full_dst :: string
  full_lnk :: string
  full_src :: string
  full_wrk :: string
  rel_dst :: string
  rel_lnk :: string
  rel_src :: string
  translate :: yaml

text \<open>\<^verbatim>\<open>spec[k] if k in spec else default\<close>.\<close>

definition spec_get :: "(string \<times> yaml) list \<Rightarrow> string \<Rightarrow> yaml \<Rightarrow> yaml" where
  "spec_get spec k dflt = (case map_of spec k of Some v \<Rightarrow> v | None \<Rightarrow> dflt)"

text \<open>
  The body of the loop \<^verbatim>\<open>for spec in conf['files']\<close> for one \<^verbatim>\<open>spec\<close>.  The locals
  \<^verbatim>\<open>spec_full_lnk\<close> and \<^verbatim>\<open>spec_rel_lnk\<close> belong to the function, not to the round: \<open>lnk\<close>
  is the pair they hold when the round starts (\<open>None\<close> while they are unbound), and the
  round returns the mappings it appends together with the pair it leaves behind.

  With \<^verbatim>\<open>src\<close> (lines 36 to 80): the two assignments of lines 62 and 63 stand behind the
  \<^verbatim>\<open>raise\<close> of line 61, inside \<^verbatim>\<open>if len(spec_full_srcs) > 1\<close>, so a \<^verbatim>\<open>symlink\<close> with a
  single source assigns nothing and the dictionary display of line 68 reads the locals
  as they are.  Without \<^verbatim>\<open>src\<close> (lines 81 to 117) the assignments of lines 99 and 100
  follow the \<^verbatim>\<open>if\<close>.
\<close>

definition compute_spec ::
  "env \<Rightarrow> string \<Rightarrow> string \<Rightarrow> (string \<times> string) option \<Rightarrow> (string \<times> yaml) list
     \<Rightarrow> error + (mapping list \<times> (string \<times> string) option)" where
  "compute_spec e output_dir working_dir lnk spec =
     (case map_of spec ''dst'' of
        None \<Rightarrow> Inl (PyKeyError ''dst'')
      | Some spec_dst \<Rightarrow>
        (case map_of spec ''src'' of
           Some spec_src \<Rightarrow>
             ebind (wrap SourcePathMapping
                      (ebind (str_attr spec_src) (\<lambda>s. parse_file_paths e (get_path e s []))))
               (\<lambda>spec_full_srcs.
             if spec_full_srcs = [] then Inl SourceNoPaths
             else
             ebind (map_err (\<lambda>p. relpath e p (TEMPLATE_DIR e)) spec_full_srcs)
               (\<lambda>spec_rel_srcs.
             case find (\<lambda>p. \<not> path_exists e p) spec_full_srcs of
               Some p \<Rightarrow> Inl (SourceNotExisting p)
             | None \<Rightarrow>
             ebind (wrap DestinationPathMapping
                      (ebind (str_attr spec_dst)
                         (\<lambda>d. parse_file_paths e (get_path e d output_dir))))
               (\<lambda>spec_full_dsts.
             if spec_full_dsts = [] then Inl DestinationNoPaths
             else if length spec_full_dsts > 1 then Inl DestinationHasExpansion
             else
             let spec_full_dst = hd spec_full_dsts in
             ebind (relpath e spec_full_dst output_dir)
               (\<lambda>spec_rel_dst.
             let spec_full_wrk = path_join working_dir spec_rel_dst in
             ebind (if map_of spec ''symlink'' \<noteq> None
                    then (if length spec_full_srcs > 1 then Inl SymlinkWithExpansion
                          else Inr lnk)
                    else Inr (Some ([], [])))
               (\<lambda>lnk'.
             case lnk' of
               None \<Rightarrow> Inl (PyUnboundLocalError ''spec_full_lnk'')
             | Some (spec_full_lnk, spec_rel_lnk) \<Rightarrow>
                 Inr (map (\<lambda>(a_full_src, a_rel_src).
                             \<lparr>chmod = spec_get spec ''chmod'' (YStr []),
                              chown = spec_get spec ''chown'' (YStr []),
                              dst_key = spec_dst,
                              full_dst = spec_full_dst,
                              full_lnk = spec_full_lnk,
                              full_src = a_full_src,
                              full_wrk = spec_full_wrk,
                              rel_dst = spec_rel_dst,
                              rel_lnk = spec_rel_lnk,
                              rel_src = a_rel_src,
                              translate = spec_get spec ''translate'' (YBool True)\<rparr>)
                        (zip spec_full_srcs spec_rel_srcs),
                      lnk'))))))
         | None \<Rightarrow>
             ebind (wrap SourcePathMapping
                      (ebind (str_attr spec_dst) (\<lambda>d. parse_file_paths e (get_path e d []))))
               (\<lambda>spec_full_srcs.
             if spec_full_srcs = [] then Inl SourceNoPaths
             else
             ebind (map_err (\<lambda>p. relpath e p (TEMPLATE_DIR e)) spec_full_srcs)
               (\<lambda>spec_rel_srcs.
             case find (\<lambda>p. \<not> path_exists e p) spec_full_srcs of
               Some p \<Rightarrow> Inl (SourceNotExisting p)
             | None \<Rightarrow>
             let spec_rel_dsts = spec_rel_srcs;
                 spec_full_dsts = map (path_join output_dir) spec_rel_dsts;
                 spec_full_wrks = map (path_join working_dir) spec_rel_dsts in
             ebind (case map_of spec ''symlink'' of
                      Some spec_symlink \<Rightarrow>
                        if length spec_full_srcs > 1 then Inl SymlinkWithExpansion
                        else ebind (str_attr spec_symlink) (\<lambda>l.
                             let spec_full_lnk = get_path e l output_dir in
                             ebind (relpath e spec_full_lnk output_dir) (\<lambda>spec_rel_lnk.
                             Inr (Some (spec_full_lnk, spec_rel_lnk))))
                    | None \<Rightarrow> Inr (Some ([], [])))
               (\<lambda>lnk'.
             case lnk' of
               None \<Rightarrow> Inl (PyUnboundLocalError ''spec_full_lnk'')
             | Some (spec_full_lnk, spec_rel_lnk) \<Rightarrow>
                 Inr (map (\<lambda>(a_full_dst, a_full_src, a_full_wrk, a_rel_dst, a_rel_src).
                             \<lparr>chmod = spec_get spec ''chmod'' (YStr []),
                              chown = spec_get spec ''chown'' (YStr []),
                              dst_key = spec_dst,
                              full_dst = a_full_dst,
                              full_lnk = spec_full_lnk,
                              full_src = a_full_src,
                              full_wrk = a_full_wrk,
                              rel_dst = a_rel_dst,
                              rel_lnk = spec_rel_lnk,
                              rel_src = a_rel_src,
                              translate = spec_get spec ''translate'' (YBool True)\<rparr>)
                        (zip spec_full_dsts (zip spec_full_srcs (zip spec_full_wrks
                           (zip spec_rel_dsts spec_rel_srcs)))),
                      lnk'))))))"

text \<open>
  The loop itself: \<open>acc\<close> is the list \<^verbatim>\<open>mapping\<close>.  Subscripting anything but a
  \<^verbatim>\<open>dict\<close> with \<^verbatim>\<open>'dst'\<close> is a \<^verbatim>\<open>TypeError\<close>.
\<close>

fun compute_specs ::
  "env \<Rightarrow> string \<Rightarrow> string \<Rightarrow> mapping list \<Rightarrow> (string \<times> string) option \<Rightarrow> yaml list
     \<Rightarrow> error + mapping list" where
  "compute_specs e output_dir working_dir acc lnk [] = Inr acc"
| "compute_specs e output_dir working_dir acc lnk (YDict spec # specs) =
     ebind (compute_spec e output_dir working_dir lnk spec)
       (\<lambda>(ms, lnk'). compute_specs e output_dir working_dir (acc @ ms) lnk' specs)"
| "compute_specs e output_dir working_dir acc lnk (other # specs) = Inl PyTypeError"

text \<open>
  \<^verbatim>\<open>conf['files']\<close> is a list once \<^verbatim>\<open>validate\<close> has passed; iterating a string or a
  \<^verbatim>\<open>dict\<close> yields strings, and iterating another scalar is a \<^verbatim>\<open>TypeError\<close>.
\<close>

definition compute_mapping ::
  "env \<Rightarrow> (string \<times> yaml) list \<Rightarrow> string \<Rightarrow> string \<Rightarrow> error + mapping list" where
  "compute_mapping e conf output_dir working_dir =
     (case map_of conf ''files'' of
        None \<Rightarrow> Inl (PyKeyError ''files'')
      | Some (YList specs) \<Rightarrow> compute_specs e output_dir working_dir [] None specs
      | Some (YStr s) \<Rightarrow> if s = [] then Inr [] else Inl PyTypeError
      | Some (YDict d) \<Rightarrow> if d = [] then Inr [] else Inl PyTypeError
      | Some other \<Rightarrow> Inl PyTypeError)"

section \<open>Library paths (config.py, get_lib_paths)\<close>

text \<open>The elements \<^verbatim>\<open>for p in v\<close> runs over.\<close>

definition py_iter :: "yaml \<Rightarrow> error + yaml list" where
  "py_iter v =
     (case v of
        YList xs \<Rightarrow> Inr xs
      | YStr s \<Rightarrow> Inr (map (\<lambda>c. YStr [c]) s)
      | YDict d \<Rightarrow> Inr (map (\<lambda>kv. YStr (fst kv)) d)
      | _ \<Rightarrow> Inl PyTypeError)"

text \<open>
  \<^verbatim>\<open>flatten(utils.parse_file_paths(utils.get_path(p, path_dir)) for p in v)\<close>, as both
  \<^verbatim>\<open>get_lib_paths\<close> and \<^verbatim>\<open>parse\<close> write it.
\<close>

definition flat_paths :: "env \<Rightarrow> string \<Rightarrow> yaml \<Rightarrow> error + string list" where
  "flat_paths e path_dir v =
     ebind (py_iter v) (\<lambda>ps.
     ebind (map_err (\<lambda>p. ebind (str_attr p) (\<lambda>s. parse_file_paths e (get_path e s path_dir))) ps)
       (\<lambda>L. Inr (concat L)))"

definition get_lib_paths :: "env \<Rightarrow> (string \<times> yaml) list \<Rightarrow> error + string list" where
  "get_lib_paths e conf =
     (case map_of conf ''lib'' of
        None \<Rightarrow> Inr []
      | Some lib \<Rightarrow>
        (case map_of conf ''template_configuration_file'' of
           None \<Rightarrow> Inl (PyKeyError ''template_configuration_file'')
         | Some (YStr f) \<Rightarrow> wrap LibraryPaths (flat_paths e (dirname f) lib)
         | Some other \<Rightarrow> Inl PyTypeError))"

section \<open>The recursive loader (config.py, parse)\<close>

text \<open>The loop \<^verbatim>\<open>for i in flat_includes\<close>; \<open>load\<close> is the recursive call.\<close>

fun merge_includes :: "(string \<Rightarrow> error + yaml) \<Rightarrow> yaml \<Rightarrow> string list \<Rightarrow> error + yaml" where
  "merge_includes load data [] = Inr data"
| "merge_includes load data (i # rest) =
     ebind (load i) (\<lambda>idata. merge_includes load (merge_yaml_data data idata) rest)"

text \<open>\<^verbatim>\<open>data[k] = v\<close> on a YAML value.\<close>

definition set_item :: "yaml \<Rightarrow> string \<Rightarrow> yaml \<Rightarrow> error + yaml" where
  "set_item data k v =
     (case data of YDict d \<Rightarrow> Inr (YDict (dict_set k v d)) | _ \<Rightarrow> Inl PyTypeError)"

text \<open>
  The first argument is the number of nested calls the interpreter still allows: a chain
  of includes deeper than that (a file that includes itself, say) ends in
  \<^verbatim>\<open>RecursionError\<close>, which no handler of \<^verbatim>\<open>parse\<close> catches.  The test
  \<^verbatim>\<open>isinstance(i, str)\<close> of line 174 holds for every element of a list that
  \<^verbatim>\<open>parse_file_paths\<close> returns.
\<close>

fun parse :: "nat \<Rightarrow> env \<Rightarrow> string \<Rightarrow> error + yaml" where
  "parse 0 e path = Inl PyRecursionError"
| "parse (Suc depth) e path =
     (if \<not> isfile e path then Inl (ConfigDoesNotExist path)
      else case read_text e path of
        None \<Rightarrow> Inl (ConfigUnreadable path)
      | Some conf_raw \<Rightarrow>
        (case safe_load e conf_raw of
           None \<Rightarrow> Inl (ConfigUnparsable path)
         | Some (YDict d) \<Rightarrow>
           (case map_of d ''include'' of
              None \<Rightarrow> Inr (YDict d)
            | Some (YList incs) \<Rightarrow>
                ebind (wrap (IncludeParsing path) (flat_paths e (dirname path) (YList incs)))
                  (\<lambda>flat_includes.
                ebind (merge_includes (\<lambda>i. parse depth e i) (YDict d) flat_includes)
                  (\<lambda>data.
                set_item data ''template_configuration_file'' (YStr (realpath e path))))
            | Some other \<Rightarrow> Inl (IncludeNotAList path))
         | Some other \<Rightarrow> Inl (ConfigNotADictionary path)))"

section \<open>Deep merge on a store of mutable objects\<close>

text \<open>
  To speak about mutation the values need identity.  A store is the list of the objects
  allocated so far, an address is an index into it, and allocation appends.  Strings and
  the other scalars are immutable; a list holds the addresses of its elements and a
  \<^verbatim>\<open>dict\<close> the addresses of its values.
\<close>

datatype scalar = SNull | SBool bool | SInt int

datatype obj =
    OStr string
  | OScalar scalar
  | OList "nat list"
  | ODict "(string \<times> nat) list"

type_synonym store = "obj list"

definition deref :: "store \<Rightarrow> nat \<Rightarrow> obj option" where
  "deref h a = (if a < length h then Some (h ! a) else None)"

text \<open>
  The loop \<^verbatim>\<open>for key, val in data2.items()\<close> over the items of \<^verbatim>\<open>data2\<close>, with
  \<^verbatim>\<open>return_dict\<close> the address of the copy.  \<^verbatim>\<open>key in return_dict\<close> and both item
  assignments read the object at that address as the store has it at that moment; the
  right-hand side \<^verbatim>\<open>merge_yaml_data(return_dict[key], val)\<close> runs before the assignment.
\<close>

fun merge_items ::
  "(store \<Rightarrow> nat \<Rightarrow> nat \<Rightarrow> error + (nat \<times> store)) \<Rightarrow> nat \<Rightarrow> store \<Rightarrow> (string \<times> nat) list
     \<Rightarrow> error + store" where
  "merge_items merge return_dict h [] = Inr h"
| "merge_items merge return_dict h ((key, val) # rest) =
     (case deref h return_dict of
        Some (ODict items) \<Rightarrow>
          (case map_of items key of
             Some old \<Rightarrow>
               ebind (merge h old val) (\<lambda>(r, h').
                 (case deref h' return_dict of
                    Some (ODict items') \<Rightarrow>
                      merge_items merge return_dict
                        (h'[return_dict := ODict (dict_set key r items')]) rest
                  | _ \<Rightarrow> Inl DanglingReference))
           | None \<Rightarrow>
               merge_items merge return_dict
                 (h[return_dict := ODict (dict_set key val items)]) rest)
      | _ \<Rightarrow> Inl DanglingReference)"

text \<open>
  \<^verbatim>\<open>merge_yaml_data\<close> on the store.  \<^verbatim>\<open>data1.copy()\<close> and \<^verbatim>\<open>data2.copy()\<close> allocate new
  objects with the same element addresses (shallow copies), \<^verbatim>\<open>extend\<close> and the item
  assignments write to the object \<^verbatim>\<open>return_list\<close> or \<^verbatim>\<open>return_dict\<close>, and every
  \<^verbatim>\<open>return data2\<close> returns the address it was given.  The first argument bounds the
  nesting of calls, as for \<^verbatim>\<open>parse\<close>.
\<close>

fun merge_yaml_data_store :: "nat \<Rightarrow> store \<Rightarrow> nat \<Rightarrow> nat \<Rightarrow> error + (nat \<times> store)" where
  "merge_yaml_data_store 0 h data1 data2 = Inl PyRecursionError"
| "merge_yaml_data_store (Suc depth) h data1 data2 =
     (case (deref h data1, deref h data2) of
        (Some (OStr s1), Some (OStr s2)) \<Rightarrow> Inr (data2, h)
      | (Some (OList l1), Some (OList l2)) \<Rightarrow>
          (let return_list = length h;
               h1 = h @ [OList l1];
               h2 = h1 @ [OList l2];
               h3 = h2[return_list := OList (l1 @ l2)]
           in Inr (return_list, h3))
      | (Some (ODict m1), Some (ODict m2)) \<Rightarrow>
          (let return_dict = length h;
               h1 = h @ [ODict m1]
           in ebind (merge_items (\<lambda>h' a b. merge_yaml_data_store depth h' a b) return_dict h1 m2)
                (\<lambda>h2. Inr (return_dict, h2)))
      | (Some o1, Some o2) \<Rightarrow> Inr (data2, h)
      | _ \<Rightarrow> Inl DanglingReference)"

text \<open>
  The value an address stands for, read through at most \<open>k\<close> levels; and a store in which
  every address that occurs is allocated.
\<close>

fun yaml_of_scalar :: "scalar \<Rightarrow> yaml" where
  "yaml_of_scalar SNull = YNull"
| "yaml_of_scalar (SBool b) = YBool b"
| "yaml_of_scalar (SInt i) = YInt i"

fun deep :: "nat \<Rightarrow> store \<Rightarrow> nat \<Rightarrow> yaml option" where
  "deep 0 h a = None"
| "deep (Suc k) h a =
     (case deref h a of
        None \<Rightarrow> None
      | Some (OStr s) \<Rightarrow> Some (YStr s)
      | Some (OScalar v) \<Rightarrow> Some (yaml_of_scalar v)
      | Some (OList l) \<Rightarrow> map_option YList (those (map (\<lambda>x. deep k h x) l))
      | Some (ODict m) \<Rightarrow>
          map_option YDict
            (those (map (\<lambda>kv. map_option (Pair (fst kv)) (deep k h (snd kv))) m)))"



text \<open>
  Addresses 2 and 5 hold \<^verbatim>\<open>{a: [1]}\<close> and \<^verbatim>\<open>{a: [2], b: 2}\<close>; the scalar at address 3 is
  shared.
\<close>

definition ex_store :: store where
  "ex_store = [OScalar (SInt 1), OList [0], ODict [(''a'', 1)],
               OScalar (SInt 2), OList [3], ODict [(''a'', 4), (''b'', 3)]]"





section \<open>Example configurations\<close>

text \<open>
  \<^verbatim>\<open>/etc/tmpl/root.yaml\<close> holds \<^verbatim>\<open>{include: [base.yaml], x: 2, y: 3}\<close> and
  \<^verbatim>\<open>/etc/tmpl/base.yaml\<close> holds \<^verbatim>\<open>{x: 1}\<close>.
\<close>

definition include_env :: env where
  "include_env =
     \<lparr>TEMPLATE_DIR = ''/etc/tmpl'', getcwd = ''/root'',
      expanduser = (\<lambda>p. ''/root'' @ tl p), realpath = (\<lambda>p. p),
      path_exists = (\<lambda>p. True),
      isfile = (\<lambda>p. p = ''/etc/tmpl/root.yaml'' \<or> p = ''/etc/tmpl/base.yaml''),
      read_text = (\<lambda>p. if p = ''/etc/tmpl/root.yaml'' then Some ''root''
                        else if p = ''/etc/tmpl/base.yaml'' then Some ''base'' else None),
      safe_load = (\<lambda>t. if t = ''root''
                           then Some (YDict [(''include'', YList [YStr ''base.yaml'']),
                                             (''x'', YInt 2), (''y'', YInt 3)])
                        else if t = ''base'' then Some (YDict [(''x'', YInt 1)])
                        else None),
      glob_glob = (\<lambda>p. Some []), pathlib_glob_files = (\<lambda>b p. Some [])\<rparr>"

text \<open>\<^verbatim>\<open>/etc/tmpl/tmpl.yaml\<close> holds \<^verbatim>\<open>{lib: [lib.py]}\<close> and includes nothing.\<close>

definition lib_env :: env where
  "lib_env =
     \<lparr>TEMPLATE_DIR = ''/etc/tmpl'', getcwd = ''/root'',
      expanduser = (\<lambda>p. ''/root'' @ tl p), realpath = (\<lambda>p. p),
      path_exists = (\<lambda>p. True),
      isfile = (\<lambda>p. p = ''/etc/tmpl/tmpl.yaml''),
      read_text = (\<lambda>p. if p = ''/etc/tmpl/tmpl.yaml'' then Some ''conf'' else None),
      safe_load = (\<lambda>t. if t = ''conf'' then Some (YDict [(''lib'', YList [YStr ''lib.py''])])
                        else None),
      glob_glob = (\<lambda>p. Some []), pathlib_glob_files = (\<lambda>b p. Some [])\<rparr>"

text \<open>
  Template root \<^verbatim>\<open>/tmp/src\<close>, as in the tests of \<^verbatim>\<open>compute_mapping\<close>; every path
  exists.
\<close>

definition mapping_env :: env where
  "mapping_env =
     \<lparr>TEMPLATE_DIR = ''/tmp/src'', getcwd = ''/root'',
      expanduser = (\<lambda>p. ''/root'' @ tl p), realpath = (\<lambda>p. p),
      path_exists = (\<lambda>p. True), isfile = (\<lambda>p. True),
      read_text = (\<lambda>p. None), safe_load = (\<lambda>t. None),
      glob_glob = (\<lambda>p. Some []), pathlib_glob_files = (\<lambda>b p. Some [])\<rparr>"

section \<open>Notions the claims use\<close>



text \<open>
  A path component that \<^verbatim>\<open>normpath\<close> keeps as it is, and a component it never drops
  silently.
\<close>

definition is_name :: "string \<Rightarrow> bool" where
  "is_name c = (c \<noteq> [] \<and> c \<noteq> ''.'' \<and> c \<noteq> ''..'')"

definition is_comp :: "string \<Rightarrow> bool" where
  "is_comp c = (c \<noteq> [] \<and> c \<noteq> ''.'')"

text \<open>
  A relative path in normal form (no empty component, no \<^verbatim>\<open>.\<close>, no \<^verbatim>\<open>..\<close>, so no leading
  or trailing slash either) that \<^verbatim>\<open>get_path\<close> does not hand to \<^verbatim>\<open>expanduser\<close>; and a string
  with none of the characters that \<^verbatim>\<open>parse_file_paths\<close> expands.
\<close>

definition plain_relative :: "string \<Rightarrow> bool" where
  "plain_relative d = (list_all is_name (split_char CHR ''/'' d) \<and> \<not> startswith d ''~'')"

definition no_expansion :: "string \<Rightarrow> bool" where
  "no_expansion s = (CHR ''*'' \<notin> set s \<and> CHR ''['' \<notin> set s \<and> CHR '']'' \<notin> set s)"

section \<open>Dictionaries and the merge\<close>

lemma map_of_dict_set: "map_of (dict_set k v d) = (map_of d)(k \<mapsto> v)"
  by (induction d) auto

text \<open>The loop of \<^verbatim>\<open>merge_yaml_data\<close> never removes a key of \<^verbatim>\<open>data1\<close>.\<close>

lemma merge_dict_step_dom:
  "k \<in> dom (map_of a) \<Longrightarrow>
   k \<in> dom (map_of (fold (\<lambda>kv return_dict.
                    (case map_of return_dict (fst kv) of
                       Some old \<Rightarrow> dict_set (fst kv) (merge_yaml_data old (snd kv)) return_dict
                     | None \<Rightarrow> dict_set (fst kv) (snd kv) return_dict)) b a))"
proof (induction b arbitrary: a)
  case Nil
  then show ?case by simp
next
  case (Cons kv b)
  show ?case
    unfolding fold_Cons comp_apply
    by (rule Cons.IH) (use Cons.prems in \<open>auto simp: map_of_dict_set split: option.split\<close>)
qed

text \<open>
  \<^bold>\<open>C5.\<close>  The three equations of the deep merge: on \<^verbatim>\<open>{a:1}\<close> and \<^verbatim>\<open>{a:2}\<close> the
  right value wins, on \<^verbatim>\<open>{a:[1]}\<close> and \<^verbatim>\<open>{a:[2]}\<close> the sequences are concatenated left
  then right, and on \<^verbatim>\<open>{a:{b:1}}\<close> and \<^verbatim>\<open>{a:{c:2}}\<close> the nested mappings are merged key
  by key.
\<close>

theorem merge_yaml_data_equations:
  "merge_yaml_data (YDict [(''a'', YInt 1)]) (YDict [(''a'', YInt 2)]) = YDict [(''a'', YInt 2)] \<and>
   merge_yaml_data (YDict [(''a'', YList [YInt 1])]) (YDict [(''a'', YList [YInt 2])])
     = YDict [(''a'', YList [YInt 1, YInt 2])] \<and>
   merge_yaml_data (YDict [(''a'', YDict [(''b'', YInt 1)])]) (YDict [(''a'', YDict [(''c'', YInt 2)])])
     = YDict [(''a'', YDict [(''b'', YInt 1), (''c'', YInt 2)])]"
  by simp

section \<open>The loader\<close>

lemma parse_returns_dict: "parse n e path = Inr doc \<Longrightarrow> \<exists>d. doc = YDict d"
  by (cases n)
     (auto simp: ebind_def wrap_def set_item_def
           split: if_splits option.splits yaml.splits sum.splits)

lemma merge_includes_keeps_key:
  assumes "\<forall>i doc. load i = Inr doc \<longrightarrow> (\<exists>d. doc = YDict d)"
  shows "merge_includes load (YDict a) incs = Inr r \<Longrightarrow> k \<in> dom (map_of a) \<Longrightarrow>
         \<exists>d'. r = YDict d' \<and> k \<in> dom (map_of d')"
proof (induction incs arbitrary: a)
  case Nil
  then show ?case by auto
next
  case (Cons i incs)
  from Cons.prems(1) obtain idata where i: "load i = Inr idata"
    and rest: "merge_includes load (merge_yaml_data (YDict a) idata) incs = Inr r"
    by (auto simp: ebind_def split: sum.splits)
  from assms i obtain b where b: "idata = YDict b" by blast
  show ?case
    using rest unfolding b merge_yaml_data.simps
    by (rule Cons.IH) (rule merge_dict_step_dom[OF Cons.prems(2)])
qed

lemma flat_paths_single:
  "parse_file_paths e (get_path e s dir) = Inr [b] \<Longrightarrow>
   flat_paths e dir (YList [YStr s]) = Inr [b]"
  by (simp add: flat_paths_def py_iter_def ebind_def str_attr_def)

text \<open>
  \<^bold>\<open>C1\<close>, as the claim states it, fails: on the two files of \<open>include_env\<close> the loader
  returns \<^verbatim>\<open>x: 1\<close>, the value of the included \<^verbatim>\<open>base.yaml\<close>, not the \<^verbatim>\<open>x: 2\<close> of the
  including document, and the result also carries \<^verbatim>\<open>include\<close> and
  \<^verbatim>\<open>template_configuration_file\<close>.
\<close>

theorem parse_include_scenario_counterexample:
  "parse 2 include_env ''/etc/tmpl/root.yaml'' =
     Inr (YDict [(''include'', YList [YStr ''base.yaml'']), (''x'', YInt 1), (''y'', YInt 3),
                 (''template_configuration_file'', YStr ''/etc/tmpl/root.yaml'')])"
  by code_simp

text \<open>
  \<^bold>\<open>C1\<close>, amended.  For every root document that declares \<^verbatim>\<open>include: ["base.yaml"]\<close>
  and sets \<^verbatim>\<open>x: 2\<close> and \<^verbatim>\<open>y: 3\<close>, where the include entry resolves to one existing file
  that parses to \<^verbatim>\<open>{x: 1}\<close>, the loader (allowed at least two nested calls) returns the
  root document with \<^verbatim>\<open>x\<close> replaced by the included value 1 and with
  \<^verbatim>\<open>template_configuration_file\<close> set to the canonical path of the root; every other key,
  \<^verbatim>\<open>y\<close> and \<^verbatim>\<open>include\<close> among them, is as the root has it.  The call is
  \<^verbatim>\<open>merge_yaml_data(data, idata)\<close> and the second argument has priority: the included
  document wins.
\<close>

theorem parse_included_document_wins:
  assumes root: "isfile e path" "read_text e path = Some raw" "safe_load e raw = Some (YDict d)"
    and inc: "map_of d ''include'' = Some (YList [YStr ''base.yaml''])"
    and x: "map_of d ''x'' = Some (YInt 2)"
    and y: "map_of d ''y'' = Some (YInt 3)"
    and res: "parse_file_paths e (get_path e ''base.yaml'' (dirname path)) = Inr [b]"
    and base: "isfile e b" "read_text e b = Some braw"
      "safe_load e braw = Some (YDict [(''x'', YInt 1)])"
  shows "\<exists>d'. parse (Suc (Suc depth)) e path = Inr (YDict d') \<and>
           map_of d' = (map_of d)(''x'' \<mapsto> YInt 1,
             ''template_configuration_file'' \<mapsto> YStr (realpath e path))"
proof -
  have b: "parse (Suc depth) e b = Inr (YDict [(''x'', YInt 1)])"
    using base by simp
  have m: "merge_includes (\<lambda>i. parse (Suc depth) e i) (YDict d) [b] =
             Inr (YDict (dict_set ''x'' (YInt 1) d))"
    using b x by (simp add: ebind_def)
  have "parse (Suc (Suc depth)) e path =
          Inr (YDict (dict_set ''template_configuration_file'' (YStr (realpath e path))
                        (dict_set ''x'' (YInt 1) d)))"
    using root inc m flat_paths_single[OF res]
    by (subst parse.simps(2))
       (simp add: ebind_def wrap_def set_item_def del: parse.simps merge_includes.simps)
  then show ?thesis
    by (auto simp: map_of_dict_set)
qed

theorem parse_included_document_wins_witness:
  "\<exists>d'. parse 2 include_env ''/etc/tmpl/root.yaml'' = Inr (YDict d') \<and>
        map_of d' =
          (map_of [(''include'', YList [YStr ''base.yaml'']), (''x'', YInt 2), (''y'', YInt 3)])
            (''x'' \<mapsto> YInt 1,
             ''template_configuration_file'' \<mapsto> YStr ''/etc/tmpl/root.yaml'')"
proof -
  have r: "parse_file_paths include_env
             (get_path include_env ''base.yaml'' (dirname ''/etc/tmpl/root.yaml''))
             = Inr [''/etc/tmpl/base.yaml'']"
    by code_simp
  have "Suc (Suc 0) = 2" by simp
  with parse_included_document_wins[of include_env "''/etc/tmpl/root.yaml''" "''root''"
      "[(''include'', YList [YStr ''base.yaml'']), (''x'', YInt 2), (''y'', YInt 3)]"
      "''/etc/tmpl/base.yaml''" "''base''" 0, OF _ _ _ _ _ _ r]
  show ?thesis
    by (simp add: include_env_def)
qed

text \<open>
  \<^bold>\<open>C2\<close>, as the claim states it, fails: the document returned for \<open>include_env\<close> still
  has its \<^verbatim>\<open>include\<close> key, with the list the root declared.
\<close>

theorem parse_keeps_include_counterexample:
  "(case parse 2 include_env ''/etc/tmpl/root.yaml'' of
      Inr (YDict d) \<Rightarrow> map_of d ''include'' = Some (YList [YStr ''base.yaml''])
    | _ \<Rightarrow> False)"
  by code_simp

text \<open>
  \<^bold>\<open>C2\<close>, amended.  For every configuration whose root document declares \<^verbatim>\<open>include\<close>,
  a document that the loader returns is a mapping that still contains the \<^verbatim>\<open>include\<close>
  key: nothing in \<^verbatim>\<open>parse\<close> removes it, and the merge never drops a key of its first
  argument.
\<close>

theorem parse_keeps_include:
  assumes ret: "parse depth e path = Inr doc"
    and root: "read_text e path = Some raw" "safe_load e raw = Some (YDict d)"
    and inc: "map_of d ''include'' = Some inc"
  shows "\<exists>d'. doc = YDict d' \<and> map_of d' ''include'' \<noteq> None"
proof (cases depth)
  case 0
  with ret show ?thesis by simp
next
  case (Suc n)
  from ret root inc obtain flat data where
      m: "merge_includes (\<lambda>i. parse n e i) (YDict d) flat = Inr data"
      and s: "set_item data ''template_configuration_file'' (YStr (realpath e path)) = Inr doc"
    unfolding Suc
    by (auto simp: ebind_def split: if_splits yaml.splits sum.splits)
  have k: "''include'' \<in> dom (map_of d)"
    using inc by auto
  have "\<forall>i doc. parse n e i = Inr doc \<longrightarrow> (\<exists>d. doc = YDict d)"
    using parse_returns_dict by blast
  from merge_includes_keeps_key[OF this m k]
  obtain d'' where d'': "data = YDict d''" "''include'' \<in> dom (map_of d'')"
    by blast
  with s show ?thesis
    by (auto simp: set_item_def map_of_dict_set)
qed

theorem parse_keeps_include_witness:
  "\<exists>d'. YDict [(''include'', YList [YStr ''base.yaml'']), (''x'', YInt 1), (''y'', YInt 3),
               (''template_configuration_file'', YStr ''/etc/tmpl/root.yaml'')] = YDict d' \<and>
        map_of d' ''include'' \<noteq> None"
proof -
  have p: "parse 2 include_env ''/etc/tmpl/root.yaml'' =
     Inr (YDict [(''include'', YList [YStr ''base.yaml'']), (''x'', YInt 1), (''y'', YInt 3),
               (''template_configuration_file'', YStr ''/etc/tmpl/root.yaml'')])"
    by code_simp
  have r: "read_text include_env ''/etc/tmpl/root.yaml'' = Some ''root''"
    by (simp add: include_env_def)
  have l: "safe_load include_env ''root'' =
      Some (YDict [(''include'', YList [YStr ''base.yaml'']), (''x'', YInt 2), (''y'', YInt 3)])"
    by (simp add: include_env_def)
  have i: "map_of [(''include'', YList [YStr ''base.yaml'']), (''x'', YInt 2), (''y'', YInt 3)]
             ''include'' = Some (YList [YStr ''base.yaml''])"
    by simp
  show ?thesis
    by (rule parse_keeps_include[OF p r l i])
qed

text \<open>
  \<^bold>\<open>C4.\<close>  A configuration file that exists, parses to a mapping and declares no
  \<^verbatim>\<open>include\<close> is returned by line 161 as it was read: the assignment of
  \<^verbatim>\<open>template_configuration_file\<close> in line 181 is never reached.  On \<open>lib_env\<close> the
  returned document has no such key, and \<^verbatim>\<open>get_lib_paths\<close>, which reads the key whenever
  \<^verbatim>\<open>lib\<close> is present, raises \<^verbatim>\<open>KeyError\<close> on it.
\<close>

theorem parse_without_include_drops_metadata:
  "parse 1 lib_env ''/etc/tmpl/tmpl.yaml'' = Inr (YDict [(''lib'', YList [YStr ''lib.py''])]) \<and>
   map_of [(''lib'', YList [YStr ''lib.py''])] ''template_configuration_file'' = None \<and>
   get_lib_paths lib_env [(''lib'', YList [YStr ''lib.py''])] =
     Inl (PyKeyError ''template_configuration_file'')"
  by code_simp

section \<open>Path specification expansion\<close>

lemma path_char_not_special:
  "is_path_char c \<Longrightarrow> c \<noteq> CHR ''['' \<and> c \<noteq> CHR '']'' \<and> c \<noteq> CHR ''*'' \<and> c \<noteq> CHR '','' \<and> c \<noteq> CHR 0x0A"
proof -
  have "\<not> is_path_char CHR ''[''" "\<not> is_path_char CHR '']''" "\<not> is_path_char CHR ''*''"
    "\<not> is_path_char CHR '',''" "\<not> is_path_char (CHR 0x0A)"
    by code_simp+
  then show "is_path_char c \<Longrightarrow> ?thesis" by auto
qed

lemma digit_is_path_char: "is_digit c \<Longrightarrow> is_path_char c"
  by (auto simp: is_digit_def is_path_char_def is_word_def Let_def)

lemma digit_not_dash: "is_digit c \<Longrightarrow> c \<noteq> CHR ''-''"
proof -
  have "\<not> is_digit CHR ''-''" by code_simp
  then show "is_digit c \<Longrightarrow> ?thesis" by auto
qed

lemma inner_char_not_bracket: "is_inner_char c \<Longrightarrow> c \<noteq> CHR ''['' \<and> c \<noteq> CHR '']''"
  using path_char_not_special[of c] by (auto simp: is_inner_char_def)

lemma replace_nil_old: "old \<noteq> [] \<Longrightarrow> replace [] old new = []"
  by (subst replace.simps) simp

lemma replace_absent:
  "c \<notin> set s \<Longrightarrow> replace s (c # old) new = s"
proof (induction s)
  case Nil
  show ?case by (simp add: replace_nil_old)
next
  case (Cons a s)
  then show ?case
    by (subst replace.simps) (auto simp: startswith_def)
qed

lemma replace_once:
  "c \<notin> set p \<Longrightarrow> c \<notin> set s \<Longrightarrow>
   replace (p @ (c # old) @ s) (c # old) new = p @ new @ s"
proof (induction p)
  case Nil
  then show ?case
    by (subst replace.simps) (simp add: startswith_def replace_absent)
next
  case (Cons a p)
  then show ?case
    by (subst replace.simps) (auto simp: startswith_def)
qed

lemma decimal_value_snoc: "decimal_value (ds @ [c]) = 10 * decimal_value ds + digit_value c"
  by (simp add: decimal_value_def)

lemma digit_value_digit_char: "d < 10 \<Longrightarrow> digit_value (digit_char d) = d"
  by (simp add: digit_value_def digit_char_def)

lemma decimal_value_digits: "decimal_value (decimal_digits n) = n"
proof (induction n rule: decimal_digits.induct)
  case (1 n)
  show ?case
  proof (cases "n < 10")
    case True
    then show ?thesis
      by (subst decimal_digits.simps) (simp add: decimal_value_def digit_value_digit_char)
  next
    case False
    with 1 show ?thesis
      by (subst decimal_digits.simps) (simp add: decimal_value_snoc digit_value_digit_char)
  qed
qed

lemma takeWhile_run: "\<forall>x\<in>set xs. P x \<Longrightarrow> \<not> P y \<Longrightarrow> takeWhile P (xs @ y # ys) = xs"
  by (induction xs) auto

lemma dropWhile_run: "\<forall>x\<in>set xs. P x \<Longrightarrow> \<not> P y \<Longrightarrow> dropWhile P (xs @ y # ys) = y # ys"
  by (induction xs) auto

lemma dropWhile_all: "\<forall>x\<in>set xs. P x \<Longrightarrow> dropWhile P xs = []"
  by (induction xs) auto

lemma not_path_char:
  "\<not> is_path_char CHR ''[''" "\<not> is_path_char CHR '']''" "\<not> is_path_char CHR ''*''"
  "\<not> is_path_char CHR '',''" "\<not> is_path_char (CHR 0x0A)"
  by code_simp+

lemma not_digit:
  "\<not> is_digit CHR ''[''" "\<not> is_digit CHR '']''" "\<not> is_digit CHR ''*''"
  "\<not> is_digit CHR '',''" "\<not> is_digit CHR ''-''"
  by code_simp+

lemma RANGE_REGEX_match_range:
  assumes "\<forall>c\<in>set p. is_path_char c" "\<forall>c\<in>set s. is_path_char c"
    and "lo \<noteq> []" "\<forall>c\<in>set lo. is_digit c" "hi \<noteq> []" "\<forall>c\<in>set hi. is_digit c"
  shows "RANGE_REGEX_match (p @ ''['' @ lo @ ''-'' @ hi @ '']'' @ s)
           = Some (''['' @ lo @ ''-'' @ hi @ '']'', lo, hi)"
proof -
  have 1: "dropWhile is_path_char (p @ CHR ''['' # lo @ CHR ''-'' # hi @ CHR '']'' # s)
             = CHR ''['' # lo @ CHR ''-'' # hi @ CHR '']'' # s"
    using assms(1) not_path_char(1) by (rule dropWhile_run)
  have 2: "takeWhile is_digit (lo @ CHR ''-'' # hi @ CHR '']'' # s) = lo"
    using assms(4) not_digit(5) by (rule takeWhile_run)
  have 3: "dropWhile is_digit (lo @ CHR ''-'' # hi @ CHR '']'' # s) = CHR ''-'' # hi @ CHR '']'' # s"
    using assms(4) not_digit(5) by (rule dropWhile_run)
  have 4: "takeWhile is_digit (hi @ CHR '']'' # s) = hi"
    using assms(6) not_digit(2) by (rule takeWhile_run)
  have 5: "dropWhile is_digit (hi @ CHR '']'' # s) = CHR '']'' # s"
    using assms(6) not_digit(2) by (rule dropWhile_run)
  have 6: "dropWhile is_path_char s = []"
    using assms(2) by (rule dropWhile_all)
  show ?thesis
    using assms(2,3,5) by (simp add: RANGE_REGEX_match_def 1 2 3 4 5 at_end_def)
qed

lemma range_spec_guts:
  assumes "\<forall>c\<in>set p. is_path_char c" "\<forall>c\<in>set lo. is_digit c" "\<forall>c\<in>set hi. is_digit c"
  shows "tl (dropWhile (\<lambda>c. c \<noteq> CHR ''['') (p @ ''['' @ lo @ ''-'' @ hi @ '']'' @ s))
           = lo @ ''-'' @ hi @ '']'' @ s"
    and "takeWhile (\<lambda>c. c \<noteq> CHR '']'') (lo @ ''-'' @ hi @ '']'' @ s) = lo @ ''-'' @ hi"
proof -
  have "\<forall>c\<in>set p. c \<noteq> CHR ''[''"
    using assms(1) not_path_char(1) by auto
  then have "dropWhile (\<lambda>c. c \<noteq> CHR ''['') (p @ CHR ''['' # lo @ ''-'' @ hi @ '']'' @ s)
               = CHR ''['' # lo @ ''-'' @ hi @ '']'' @ s"
    by (rule dropWhile_run) simp
  then show "tl (dropWhile (\<lambda>c. c \<noteq> CHR ''['') (p @ ''['' @ lo @ ''-'' @ hi @ '']'' @ s))
           = lo @ ''-'' @ hi @ '']'' @ s"
    by simp
  have "\<forall>c\<in>set (lo @ ''-'' @ hi). c \<noteq> CHR '']''"
    using assms(2,3) not_digit(2) by auto
  then have "takeWhile (\<lambda>c. c \<noteq> CHR '']'') ((lo @ ''-'' @ hi) @ CHR '']'' # s) = lo @ ''-'' @ hi"
    by (rule takeWhile_run) simp
  then show "takeWhile (\<lambda>c. c \<noteq> CHR '']'') (lo @ ''-'' @ hi @ '']'' @ s) = lo @ ''-'' @ hi"
    by simp
qed

lemma decimal_value_bound:
  "\<forall>c\<in>set ds. is_digit c \<Longrightarrow> decimal_value ds < 10 ^ length ds"
proof (induction ds rule: rev_induct)
  case Nil
  show ?case by (simp add: decimal_value_def)
next
  case (snoc c ds)
  then have "decimal_value ds < 10 ^ length ds" by simp
  then have "10 * decimal_value ds + 10 \<le> 10 * 10 ^ length ds" by simp
  moreover have "digit_value c < 10"
    using snoc.prems by (auto simp: digit_value_def is_digit_def Let_def)
  ultimately show ?case
    by (simp add: decimal_value_snoc)
qed

lemma decimal_digits_length:
  "n < 10 ^ k \<Longrightarrow> 0 < k \<Longrightarrow> length (decimal_digits n) \<le> k"
proof (induction n arbitrary: k rule: decimal_digits.induct)
  case (1 n)
  show ?case
  proof (cases "n < 10")
    case True
    with "1.prems" show ?thesis
      by (subst decimal_digits.simps) simp
  next
    case False
    obtain j where k: "k = Suc j" using "1.prems"(2) by (cases k) auto
    have j: "0 < j"
    proof (rule ccontr)
      assume "\<not> 0 < j"
      with k "1.prems"(1) False show False by simp
    qed
    have "n div 10 < 10 ^ j"
      using "1.prems"(1) k by (simp add: less_mult_imp_div_less mult.commute)
    from "1.IH"[OF False this j] k False show ?thesis
      by (subst decimal_digits.simps) simp
  qed
qed

text \<open>Within the limit \<^verbatim>\<open>int\<close> succeeds, and \<^verbatim>\<open>str\<close> succeeds up to the number read.\<close>

lemma py_int_digits:
  "length ds \<le> int_max_str_digits \<Longrightarrow> py_int ds = Inr (decimal_value ds)"
  by (simp add: py_int_def)

lemma py_str_upto:
  assumes "\<forall>c\<in>set ds. is_digit c" "ds \<noteq> []" "length ds \<le> int_max_str_digits"
    and "i \<le> decimal_value ds"
  shows "py_str i = Inr (decimal_digits i)"
proof -
  have "i < 10 ^ length ds"
    using decimal_value_bound[OF assms(1)] assms(4) by simp
  then have "length (decimal_digits i) \<le> length ds"
    using assms(2) by (intro decimal_digits_length) simp_all
  with assms(3) show ?thesis
    by (simp add: py_str_def)
qed

lemma ebind_Inr: "ebind (Inr x) f = f x"
  by (simp add: ebind_def)

lemma map_err_all: "\<forall>x\<in>set xs. f x = Inr (g x) \<Longrightarrow> map_err f xs = Inr (map g xs)"
  by (induction xs) (simp_all add: ebind_def)

lemma parse_file_paths_range_branch:
  assumes "\<forall>c\<in>set p. is_path_char c" "\<forall>c\<in>set s. is_path_char c"
    and "lo \<noteq> []" "\<forall>c\<in>set lo. is_digit c" "hi \<noteq> []" "\<forall>c\<in>set hi. is_digit c"
  shows "parse_file_paths e (p @ ''['' @ lo @ ''-'' @ hi @ '']'' @ s) =
          ebind (py_int lo) (\<lambda>lb.
          ebind (py_int hi) (\<lambda>ub.
          if \<not> ub > lb then Inl UpperNotGreaterThanLower
          else map_err (\<lambda>i. ebind (py_str i) (\<lambda>digits. Inr (p @ digits @ s))) [lb..<ub + 1]))"
proof -
  let ?spec = "p @ ''['' @ lo @ ''-'' @ hi @ '']'' @ s"
  have star: "CHR ''*'' \<notin> set ?spec"
    using assms(1,2,4,6) not_path_char(3) not_digit(3) by auto
  have comma: "CHR '','' \<notin> set (lo @ ''-'' @ hi)"
    using assms(4,6) not_digit(4) by auto
  have dash: "CHR ''-'' \<in> set (lo @ ''-'' @ hi)"
    by simp
  have br: "CHR ''['' \<in> set ?spec" "CHR '']'' \<in> set ?spec" "CHR '']'' \<in> set (lo @ ''-'' @ hi @ '']'' @ s)"
    by simp_all
  have op: "CHR ''['' \<notin> set p" "CHR ''['' \<notin> set s"
    using assms(1,2) not_path_char(1) by auto
  have r: "replace ?spec (''['' @ lo @ ''-'' @ hi @ '']'') new = p @ new @ s" for new
    using replace_once[OF op, of "lo @ ''-'' @ hi @ '']''" new] by simp
  note g = range_spec_guts[OF assms(1,4,6), of s]
  note m = RANGE_REGEX_match_range[OF assms]
  show ?thesis
    unfolding parse_file_paths_def g Let_def m
    using star comma dash br
    by (simp only: if_True if_False simp_thms option.case prod.case r)
qed

lemma parse_file_paths_range_within_limit:
  assumes "\<forall>c\<in>set p. is_path_char c" "\<forall>c\<in>set s. is_path_char c"
    and "lo \<noteq> []" "\<forall>c\<in>set lo. is_digit c" "hi \<noteq> []" "\<forall>c\<in>set hi. is_digit c"
    and "length lo \<le> int_max_str_digits" "length hi \<le> int_max_str_digits"
  shows "parse_file_paths e (p @ ''['' @ lo @ ''-'' @ hi @ '']'' @ s) =
          (if \<not> decimal_value hi > decimal_value lo then Inl UpperNotGreaterThanLower
           else Inr (map (\<lambda>i. p @ decimal_digits i @ s)
                       [decimal_value lo..<decimal_value hi + 1]))"
proof -
  have "\<forall>i\<in>set [decimal_value lo..<decimal_value hi + 1].
          ebind (py_str i) (\<lambda>digits. Inr (p @ digits @ s)) = Inr (p @ decimal_digits i @ s)"
  proof
    fix i assume "i \<in> set [decimal_value lo..<decimal_value hi + 1]"
    then have "i \<le> decimal_value hi" by auto
    from py_str_upto[OF assms(6,5,8) this]
    show "ebind (py_str i) (\<lambda>digits. Inr (p @ digits @ s)) = Inr (p @ decimal_digits i @ s)"
      by (simp add: ebind_def)
  qed
  then have me: "map_err (\<lambda>i. ebind (py_str i) (\<lambda>digits. Inr (p @ digits @ s)))
               [decimal_value lo..<decimal_value hi + 1]
             = Inr (map (\<lambda>i. p @ decimal_digits i @ s) [decimal_value lo..<decimal_value hi + 1])"
    by (rule map_err_all)
  show ?thesis
    unfolding parse_file_paths_range_branch[OF assms(1-6)]
      py_int_digits[OF assms(7)] py_int_digits[OF assms(8)] ebind_Inr me
    by (rule refl)
qed










text \<open>
  \<^bold>\<open>C6\<close>, as the claim states it, fails: a prefix free of \<^verbatim>\<open>*\<close>, \<^verbatim>\<open>[\<close> and \<^verbatim>\<open>]\<close> may
  still hold a character outside the class \<^verbatim>\<open>[/\w\.\-\ ]\<close> of \<^verbatim>\<open>RANGE_REGEX\<close>; with
  the prefix \<^verbatim>\<open>a+b\<close> the expression does not match and the call raises.
\<close>

theorem parse_file_paths_range_counterexample:
  "parse_file_paths include_env ''a+b[1-3].txt'' = Inl NoValidRangeExpression"
  by code_simp

text \<open>
  \<^bold>\<open>C6\<close>, amended.  For every range path spec \<^verbatim>\<open>prefix[N-M]suffix\<close> whose prefix and
  suffix consist of word characters, \<^verbatim>\<open>/\<close>, \<^verbatim>\<open>.\<close>, \<^verbatim>\<open>-\<close> and spaces only, with \<open>N\<close>
  and \<open>M\<close> non-empty strings of at most 4300 decimal digits (the limit of \<^verbatim>\<open>int\<close>) and
  \<open>M > N\<close>, the expansion returns exactly \<open>M - N + 1\<close> paths, namely
  \<^verbatim>\<open>prefix{i}suffix\<close> for each \<open>i\<close> from \<open>N\<close> to \<open>M\<close> inclusive, in ascending order of
  \<open>i\<close>.
\<close>

theorem parse_file_paths_range:
  assumes "list_all is_path_char pre" "list_all is_path_char post"
    and "lower \<noteq> []" "list_all is_digit lower" "upper \<noteq> []" "list_all is_digit upper"
    and "length lower \<le> int_max_str_digits" "length upper \<le> int_max_str_digits"
    and "decimal_value upper > decimal_value lower"
  shows "parse_file_paths e (pre @ ''['' @ lower @ ''-'' @ upper @ '']'' @ post)
           = Inr (map (\<lambda>i. pre @ decimal_digits i @ post)
                    [decimal_value lower ..< decimal_value upper + 1]) \<and>
         length (map (\<lambda>i. pre @ decimal_digits i @ post)
                   [decimal_value lower ..< decimal_value upper + 1])
           = decimal_value upper - decimal_value lower + 1"
  using assms parse_file_paths_range_within_limit[of pre post lower upper e]
  by (simp add: list_all_iff)

theorem parse_file_paths_range_witness:
  "parse_file_paths include_env ''foo[1-3].txt'' = Inr [''foo1.txt'', ''foo2.txt'', ''foo3.txt''] \<and>
   length [''foo1.txt'', ''foo2.txt'', ''foo3.txt''] = decimal_value ''3'' - decimal_value ''1'' + 1"
proof -
  have a: "list_all is_path_char ''foo''" "list_all is_path_char ''.txt''"
    "''1'' \<noteq> []" "list_all is_digit ''1''" "''3'' \<noteq> []" "list_all is_digit ''3''"
    "length ''1'' \<le> int_max_str_digits" "length ''3'' \<le> int_max_str_digits"
    "decimal_value ''3'' > decimal_value ''1''"
    by code_simp+
  have m: "map (\<lambda>i. ''foo'' @ decimal_digits i @ ''.txt'') [decimal_value ''1'' ..< decimal_value ''3'' + 1]
             = [''foo1.txt'', ''foo2.txt'', ''foo3.txt'']"
    by code_simp
  from parse_file_paths_range[OF a, of include_env] show ?thesis
    unfolding m by simp
qed




section \<open>Splitting, joining and normalising paths\<close>

lemma split_char_not_Nil [simp]: "split_char c s \<noteq> []"
  by (induction s) (auto split: list.split)

lemma split_char_append: "split_char c (a @ c # b) = split_char c a @ split_char c b"
proof (induction a)
  case Nil
  show ?case by simp
next
  case (Cons x a)
  then show ?case
    by (cases "split_char c a") auto
qed

lemma split_char_no_sep: "c \<notin> set s \<Longrightarrow> split_char c s = [s]"
  by (induction s) auto

lemma split_char_parts: "x \<in> set (split_char c s) \<Longrightarrow> c \<notin> set x \<and> set x \<subseteq> set s"
proof (induction s arbitrary: x)
  case Nil
  then show ?case by simp
next
  case (Cons a s)
  show ?case
  proof (cases "a = c")
    case True
    with Cons show ?thesis by auto
  next
    case False
    obtain w ws where w: "split_char c s = w # ws"
      by (cases "split_char c s") auto
    with Cons.prems False have "x = a # w \<or> x \<in> set ws" by simp
    then show ?thesis
      using Cons.IH[of w] Cons.IH[of x] w False by auto
  qed
qed

lemma sep_join_Cons_Cons: "sep_join ((x # w) # ws) = x # sep_join (w # ws)"
  by (cases ws) auto

lemma sep_join_split: "sep_join (split_char CHR ''/'' s) = s"
proof (induction s)
  case Nil
  show ?case by simp
next
  case (Cons a s)
  obtain w ws where w: "split_char CHR ''/'' s = w # ws"
    by (cases "split_char CHR ''/'' s") auto
  with Cons show ?case
    by (auto simp: sep_join_Cons_Cons)
qed

lemma sep_join_Cons: "xs \<noteq> [] \<Longrightarrow> sep_join (x # xs) = x @ CHR ''/'' # sep_join xs"
  by (cases xs) auto

lemma split_sep_join:
  "xs \<noteq> [] \<Longrightarrow> \<forall>x\<in>set xs. CHR ''/'' \<notin> set x \<Longrightarrow> split_char CHR ''/'' (sep_join xs) = xs"
proof (induction xs rule: sep_join.induct)
  case 1
  then show ?case by simp
next
  case (2 p)
  then show ?case by (simp add: split_char_no_sep)
next
  case (3 p q ps)
  then show ?case
    by (simp add: split_char_append split_char_no_sep del: split_char.simps)
qed

lemma sep_join_concat: "sep_join (x # xs) = x @ concat (map (\<lambda>y. CHR ''/'' # y) xs)"
  by (induction xs arbitrary: x) (auto simp: sep_join_Cons)

lemma foldl_path_join:
  "a \<noteq> [] \<Longrightarrow> last a \<noteq> CHR ''/'' \<Longrightarrow> \<forall>x\<in>set xs. x \<noteq> [] \<and> CHR ''/'' \<notin> set x \<Longrightarrow>
   foldl path_join a xs = a @ concat (map (\<lambda>y. CHR ''/'' # y) xs)"
proof (induction xs arbitrary: a)
  case Nil
  show ?case by simp
next
  case (Cons x xs)
  have x: "x \<noteq> []" "CHR ''/'' \<notin> set x" using Cons.prems(3) by auto
  then have s: "\<not> startswith x ''/''"
    by (cases x) (auto simp: startswith_def)
  have j: "path_join a x = a @ ''/'' @ x"
    using Cons.prems(1,2) s by (simp add: path_join_def)
  have l: "last (a @ ''/'' @ x) \<noteq> CHR ''/''"
    using x by (metis append_assoc last_appendR last_in_set)
  show ?case
    using Cons.IH[of "a @ ''/'' @ x"] Cons.prems(3) l by (simp add: j)
qed

lemma join_names:
  assumes "xs \<noteq> []" "\<forall>x\<in>set xs. x \<noteq> [] \<and> CHR ''/'' \<notin> set x"
  shows "foldl path_join (hd xs) (tl xs) = sep_join xs"
proof -
  obtain x ys where xs: "xs = x # ys" using assms(1) by (cases xs) auto
  have "x \<noteq> []" "CHR ''/'' \<notin> set x" using assms(2) xs by auto
  then have "last x \<noteq> CHR ''/''" by (metis last_in_set)
  with foldl_path_join[of x ys] assms(2) xs \<open>x \<noteq> []\<close> show ?thesis
    by (simp add: sep_join_concat)
qed

lemma norm_step_name: "is_name c \<Longrightarrow> norm_step r st c = st @ [c]"
  by (simp add: norm_step_def is_name_def)

lemma norm_names: "\<forall>c\<in>set cs. is_name c \<Longrightarrow> foldl (norm_step r) st cs = st @ cs"
  by (induction cs arbitrary: st) (auto simp: norm_step_name)

lemma norm_step_empty [simp]: "norm_step r st [] = st"
  by (simp add: norm_step_def)

lemma norm_step_skip: "c = [] \<or> c = ''.'' \<Longrightarrow> norm_step r st c = st"
  by (auto simp: norm_step_def)

lemma norm_skip_empty:
  "foldl (norm_step r) st (filter (\<lambda>x. x \<noteq> []) cs) = foldl (norm_step r) st cs"
  by (induction cs arbitrary: st) auto

lemma norm_step_rooted_names:
  "\<forall>x\<in>set st. is_name x \<Longrightarrow> \<forall>x\<in>set (norm_step True st c). is_name x"
  by (auto simp: norm_step_def is_name_def dest: in_set_butlastD)

lemma norm_rooted_names:
  "\<forall>x\<in>set st. is_name x \<Longrightarrow> \<forall>x\<in>set (foldl (norm_step True) st cs). is_name x"
proof (induction cs arbitrary: st)
  case Nil
  then show ?case by simp
next
  case (Cons c cs)
  show ?case
    unfolding foldl_Cons
    by (rule Cons.IH) (rule norm_step_rooted_names[OF Cons.prems])
qed

lemma norm_step_comps:
  "\<forall>x\<in>set st. is_comp x \<Longrightarrow> \<forall>x\<in>set (norm_step r st c). is_comp x"
  by (auto simp: norm_step_def is_comp_def dest: in_set_butlastD)

lemma norm_comps:
  "\<forall>x\<in>set st. is_comp x \<Longrightarrow> \<forall>x\<in>set (foldl (norm_step r) st cs). is_comp x"
proof (induction cs arbitrary: st)
  case Nil
  then show ?case by simp
next
  case (Cons c cs)
  show ?case
    unfolding foldl_Cons
    by (rule Cons.IH) (rule norm_step_comps[OF Cons.prems])
qed

lemma norm_step_subset: "set (norm_step r st c) \<subseteq> set st \<union> {c}"
  by (auto simp: norm_step_def dest: in_set_butlastD)

lemma norm_subset: "set (foldl (norm_step r) st cs) \<subseteq> set st \<union> set cs"
proof (induction cs arbitrary: st)
  case Nil
  show ?case by simp
next
  case (Cons c cs)
  show ?case
    using Cons.IH[of "norm_step r st c"] norm_step_subset[of r st c] by auto
qed

text \<open>Normalising a relative tail first does not change what a rooted walk makes of it.\<close>

lemma norm_rooted_after_relative:
  assumes "\<forall>x\<in>set st. is_name x"
  shows "foldl (norm_step True) st (foldl (norm_step False) [] cs) = foldl (norm_step True) st cs"
proof (induction cs rule: rev_induct)
  case Nil
  show ?case by simp
next
  case (snoc c cs)
  let ?S = "foldl (norm_step False) [] cs"
  let ?X = "foldl (norm_step True) st cs"
  have comps: "\<forall>x\<in>set ?S. is_comp x"
    by (rule norm_comps) simp
  have goal: "foldl (norm_step True) st (norm_step False ?S c) = norm_step True ?X c"
  proof (cases "c = [] \<or> c = ''.''")
    case True
    then show ?thesis using snoc by (simp add: norm_step_skip)
  next
    case False
    show ?thesis
    proof (cases "c \<noteq> ''..'' \<or> ?S = [] \<or> last ?S = ''..''")
      case True
      with False have "norm_step False ?S c = ?S @ [c]"
        by (auto simp: norm_step_def)
      then show ?thesis using snoc by simp
    next
      case F2: False
      then have c: "c = ''..''" and ne: "?S \<noteq> []" and l: "last ?S \<noteq> ''..''" by auto
      from ne obtain B n where S: "?S = B @ [n]"
        by (metis rev_exhaust)
      with l comps have n: "is_name n"
        by (auto simp: is_name_def is_comp_def)
      have 1: "norm_step False ?S c = B"
        using c S l by (simp add: norm_step_def)
      have "?X = foldl (norm_step True) st (B @ [n])"
        using snoc S by simp
      also have "\<dots> = foldl (norm_step True) st B @ [n]"
        by (simp add: norm_step_name[OF n])
      finally have X: "?X = foldl (norm_step True) st B @ [n]" .
      have "norm_step True ?X c = foldl (norm_step True) st B"
        unfolding X c using n by (simp add: norm_step_def is_name_def)
      with 1 show ?thesis by simp
    qed
  qed
  then show ?case by simp
qed

lemma lcp_append: "longest_common_prefix xs (xs @ ys) = xs"
  by (induction xs) auto

lemma startswith_slash: "startswith p ''/'' \<longleftrightarrow> (\<exists>q. p = CHR ''/'' # q)"
  by (cases p) (auto simp: startswith_def)

lemma initial_slashes_relative: "\<not> startswith p ''/'' \<Longrightarrow> initial_slashes p = []"
  by (cases p) (auto simp: initial_slashes_def startswith_def)

lemma norm_drop_root:
  assumes "startswith p ''/''"
  shows "initial_slashes p \<noteq> [] \<and> initial_slashes p \<in> {''/'', ''//''} \<and>
         foldl (norm_step r) st (split_char CHR ''/'' (drop (length (initial_slashes p)) p))
           = foldl (norm_step r) st (split_char CHR ''/'' p)"
proof (cases "startswith p ''//'' \<and> \<not> startswith p ''///''")
  case True
  then have i: "initial_slashes p = ''//''"
    by (simp add: initial_slashes_def)
  from True obtain q where "p = CHR ''/'' # CHR ''/'' # q"
    by (cases p; cases "tl p") (auto simp: startswith_def)
  then show ?thesis
    unfolding i by simp
next
  case False
  with assms have i: "initial_slashes p = ''/''"
    by (simp add: initial_slashes_def)
  from assms obtain q where "p = CHR ''/'' # q"
    by (auto simp: startswith_slash)
  then show ?thesis
    unfolding i by simp
qed

lemma rooted_stack:
  "\<forall>x\<in>set (foldl (norm_step True) [] (split_char CHR ''/'' p)). is_name x \<and> CHR ''/'' \<notin> set x"
proof
  fix x assume x: "x \<in> set (foldl (norm_step True) [] (split_char CHR ''/'' p))"
  have "is_name x"
    using norm_rooted_names[of "[]" "split_char CHR ''/'' p"] x by simp
  moreover have "x \<in> set (split_char CHR ''/'' p)"
    using norm_subset[of True "[]" "split_char CHR ''/'' p"] x by auto
  ultimately show "is_name x \<and> CHR ''/'' \<notin> set x"
    using split_char_parts by blast
qed

lemma normpath_absolute:
  assumes "startswith p ''/''"
  shows "\<exists>root. root \<in> {''/'', ''//''} \<and>
           normpath p = root @ sep_join (foldl (norm_step True) [] (split_char CHR ''/'' p))"
proof -
  from assms have ne: "p \<noteq> []" by (auto simp: startswith_slash)
  note r = norm_drop_root[OF assms, of True "[]"]
  show ?thesis
    using r ne by (auto simp: normpath_def Let_def)
qed

lemma filter_names:
  "\<forall>x\<in>set S. is_name x \<Longrightarrow> filter (\<lambda>x. x \<noteq> []) S = S"
  by (induction S) (auto simp: is_name_def)

lemma split_rooted_join:
  assumes "root \<in> {''/'', ''//''}" "\<forall>x\<in>set S. is_name x \<and> CHR ''/'' \<notin> set x"
  shows "filter (\<lambda>x. x \<noteq> []) (split_char CHR ''/'' (root @ sep_join S)) = S"
proof (cases "S = []")
  case True
  with assms(1) show ?thesis by auto
next
  case False
  with assms(2) have "split_char CHR ''/'' (sep_join S) = S"
    by (intro split_sep_join) auto
  moreover have "filter (\<lambda>x. x \<noteq> []) S = S"
    using assms(2) by (intro filter_names) auto
  ultimately show ?thesis
    using assms(1) by auto
qed

lemma abs_comps:
  assumes "startswith p ''/''"
  shows "filter (\<lambda>x. x \<noteq> []) (split_char CHR ''/'' (normpath p))
           = foldl (norm_step True) [] (split_char CHR ''/'' p)"
proof -
  from normpath_absolute[OF assms] obtain root where
    "root \<in> {''/'', ''//''}"
    "normpath p = root @ sep_join (foldl (norm_step True) [] (split_char CHR ''/'' p))"
    by blast
  then show ?thesis
    using split_rooted_join[OF _ rooted_stack, of root p] by simp
qed

lemma norm_path_join:
  assumes "\<not> startswith b ''/''"
  shows "foldl (norm_step r) st (split_char CHR ''/'' (path_join a b))
           = foldl (norm_step r) (foldl (norm_step r) st (split_char CHR ''/'' a))
               (split_char CHR ''/'' b)"
proof (cases "a = []")
  case True
  with assms show ?thesis by (simp add: path_join_def)
next
  case False
  show ?thesis
  proof (cases "last a = CHR ''/''")
    case True
    with False obtain a' where a: "a = a' @ ''/''"
      by (metis append_butlast_last_id)
    have "path_join a b = a' @ CHR ''/'' # b"
      using assms a by (simp add: path_join_def)
    moreover have "split_char CHR ''/'' a = split_char CHR ''/'' a' @ [[]]"
      using split_char_append[of "CHR ''/''" a' "[]"] a by simp
    ultimately show ?thesis
      by (simp add: split_char_append del: split_char.simps)
  next
    case F: False
    with False assms have "path_join a b = a @ CHR ''/'' # b"
      by (simp add: path_join_def)
    then show ?thesis
      by (simp add: split_char_append del: split_char.simps)
  qed
qed

lemma path_join_absolute: "startswith a ''/'' \<Longrightarrow> \<not> startswith b ''/'' \<Longrightarrow> startswith (path_join a b) ''/''"
  by (auto simp: path_join_def startswith_slash)

lemma abs_list:
  assumes "startswith (getcwd e) ''/''"
  shows "filter (\<lambda>x. x \<noteq> []) (split_char CHR ''/'' (abspath e p))
           = foldl (norm_step True)
               (if startswith p ''/'' then []
                else foldl (norm_step True) [] (split_char CHR ''/'' (getcwd e)))
               (split_char CHR ''/'' p)"
proof (cases "startswith p ''/''")
  case True
  then show ?thesis by (simp add: abspath_def abs_comps)
next
  case False
  then show ?thesis
    using abs_comps[OF path_join_absolute[OF assms False]] norm_path_join[OF False]
    by (simp add: abspath_def)
qed

lemma sep_join_nonempty:
  "xs \<noteq> [] \<Longrightarrow> \<forall>x\<in>set xs. x \<noteq> [] \<Longrightarrow> sep_join xs \<noteq> [] \<and> hd (sep_join xs) = hd (hd xs)"
  by (cases xs rule: sep_join.cases) auto

lemma not_name_Nil: "\<not> is_name []"
  by (simp add: is_name_def)

lemma names_not_absolute:
  assumes "\<forall>c\<in>set (split_char CHR ''/'' d). is_name c"
  shows "\<not> startswith d ''/''" and "d \<noteq> []"
proof -
  show "\<not> startswith d ''/''"
  proof
    assume "startswith d ''/''"
    then obtain q where "d = CHR ''/'' # q"
      by (auto simp: startswith_slash)
    then have "[] \<in> set (split_char CHR ''/'' d)"
      by simp
    with assms have "is_name []" by blast
    then show False by (simp add: not_name_Nil)
  qed
  show "d \<noteq> []"
  proof
    assume "d = []"
    then have "[] \<in> set (split_char CHR ''/'' d)"
      by simp
    with assms have "is_name []" by blast
    then show False by (simp add: not_name_Nil)
  qed
qed

lemma relpath_under_root:
  assumes cwd: "startswith (getcwd e) ''/''"
    and d: "\<forall>c\<in>set (split_char CHR ''/'' d). is_name c"
  shows "relpath e (normpath (path_join T d)) T = Inr d"
proof -
  let ?dcs = "split_char CHR ''/'' d"
  let ?st0 = "foldl (norm_step True) [] (split_char CHR ''/'' (getcwd e))"
  let ?SL = "filter (\<lambda>x. x \<noteq> []) (split_char CHR ''/'' (abspath e T))"
  let ?X = "path_join T d"
  let ?F = "normpath ?X"
  note nd = names_not_absolute[OF d]
  have dfree: "\<forall>x\<in>set ?dcs. x \<noteq> [] \<and> CHR ''/'' \<notin> set x"
    using d split_char_parts by (auto simp: is_name_def)
  have st0: "\<forall>x\<in>set ?st0. is_name x"
    using rooted_stack by blast
  have SL: "?SL = foldl (norm_step True) (if startswith T ''/'' then [] else ?st0)
                    (split_char CHR ''/'' T)"
    by (rule abs_list[OF cwd])
  have main: "?F \<noteq> [] \<and> filter (\<lambda>x. x \<noteq> []) (split_char CHR ''/'' (abspath e ?F)) = ?SL @ ?dcs"
  proof (cases "startswith T ''/''")
    case True
    have X: "startswith ?X ''/''"
      by (rule path_join_absolute[OF True nd(1)])
    have S: "foldl (norm_step True) [] (split_char CHR ''/'' ?X) = ?SL @ ?dcs"
      using True by (simp add: norm_path_join[OF nd(1)] SL norm_names[OF d])
    from normpath_absolute[OF X] obtain root where
      root: "root \<in> {''/'', ''//''}" and F: "?F = root @ sep_join (?SL @ ?dcs)"
      unfolding S by blast
    then have Fa: "startswith ?F ''/''" and Fne: "?F \<noteq> []"
      by (auto simp: startswith_slash)
    have names: "\<forall>x\<in>set (?SL @ ?dcs). is_name x"
      using rooted_stack[of ?X] unfolding S by blast
    have "filter (\<lambda>x. x \<noteq> []) (split_char CHR ''/'' (abspath e ?F))
            = foldl (norm_step True) [] (split_char CHR ''/'' ?F)"
      using Fa by (simp add: abs_list[OF cwd])
    also have "\<dots> = foldl (norm_step True) []
                        (filter (\<lambda>x. x \<noteq> []) (split_char CHR ''/'' ?F))"
      by (simp add: norm_skip_empty)
    also have "\<dots> = foldl (norm_step True) [] (?SL @ ?dcs)"
      using abs_comps[OF X] S by simp
    also have "\<dots> = ?SL @ ?dcs"
      using norm_names[OF names, of True "[]"] by simp
    finally show ?thesis using Fne by simp
  next
    case False
    let ?ST = "foldl (norm_step False) [] (split_char CHR ''/'' T)"
    have Xr: "\<not> startswith ?X ''/''"
      using False nd(1) by (cases T) (auto simp: path_join_def startswith_def)
    have Xne: "?X \<noteq> []"
      using nd(2) by (auto simp: path_join_def)
    have S: "foldl (norm_step False) [] (split_char CHR ''/'' ?X) = ?ST @ ?dcs"
      by (simp add: norm_path_join[OF nd(1)] norm_names[OF d])
    have Sne: "?ST @ ?dcs \<noteq> []"
      by simp
    have comps: "\<forall>x\<in>set (?ST @ ?dcs). x \<noteq> []"
      using norm_comps[of "[]" False "split_char CHR ''/'' T"] dfree
      by (auto simp: is_comp_def)
    have free: "\<forall>x\<in>set (?ST @ ?dcs). CHR ''/'' \<notin> set x"
      using norm_subset[of False "[]" "split_char CHR ''/'' T"] split_char_parts dfree
      by fastforce
    note j = sep_join_nonempty[OF Sne comps]
    have F: "?F = sep_join (?ST @ ?dcs)"
      using Xne j by (simp add: normpath_def initial_slashes_relative[OF Xr] Let_def S)
    have Fne: "?F \<noteq> []"
      using j F by simp
    have "hd (hd (?ST @ ?dcs)) \<in> set (hd (?ST @ ?dcs))"
      using comps Sne by (metis hd_in_set)
    with free Sne have "hd (hd (?ST @ ?dcs)) \<noteq> CHR ''/''"
      by (metis hd_in_set)
    with j F Fne have Fr: "\<not> startswith ?F ''/''"
      by (auto simp: startswith_slash)
    have "filter (\<lambda>x. x \<noteq> []) (split_char CHR ''/'' (abspath e ?F))
            = foldl (norm_step True) ?st0 (split_char CHR ''/'' ?F)"
      using Fr by (simp add: abs_list[OF cwd])
    also have "\<dots> = foldl (norm_step True) ?st0 (?ST @ ?dcs)"
      unfolding F using split_sep_join[OF Sne free] by simp
    also have "\<dots> = foldl (norm_step True) ?st0 ?ST @ ?dcs"
      by (simp add: norm_names[OF d])
    also have "foldl (norm_step True) ?st0 ?ST = ?SL"
      using False by (simp add: norm_rooted_after_relative[OF st0] SL)
    finally show ?thesis using Fne by simp
  qed
  have dcs: "?dcs \<noteq> []" by simp
  from main have Fne: "?F \<noteq> []"
    and pl: "filter (\<lambda>x. x \<noteq> []) (split_char CHR ''/'' (abspath e ?F)) = ?SL @ ?dcs"
    by blast+
  have j: "foldl path_join (hd ?dcs) (tl ?dcs) = d"
    using join_names[OF dcs dfree] by (simp only: sep_join_split)
  show ?thesis
    unfolding relpath_def Let_def pl lcp_append
    using Fne dcs j by (simp del: split_char.simps)
qed

lemma sep_join_chars: "set (sep_join xs) \<subseteq> (\<Union>x\<in>set xs. set x) \<union> {CHR ''/''}"
  by (induction xs rule: sep_join.induct) auto

lemma initial_slashes_chars: "set (initial_slashes p) \<subseteq> {CHR ''/''}"
  by (auto simp: initial_slashes_def)

lemma normpath_chars: "set (normpath p) \<subseteq> set p \<union> {CHR ''/'', CHR ''.''}"
proof -
  let ?S = "foldl (norm_step (initial_slashes p \<noteq> [])) []
              (split_char CHR ''/'' (drop (length (initial_slashes p)) p))"
  have "x \<in> set ?S \<Longrightarrow> set x \<subseteq> set p" for x
  proof -
    assume "x \<in> set ?S"
    then have "x \<in> set (split_char CHR ''/'' (drop (length (initial_slashes p)) p))"
      using norm_subset by fastforce
    then have "set x \<subseteq> set (drop (length (initial_slashes p)) p)"
      using split_char_parts by blast
    then show "set x \<subseteq> set p"
      using set_drop_subset by fastforce
  qed
  then have "set (sep_join ?S) \<subseteq> set p \<union> {CHR ''/''}"
    using sep_join_chars[of ?S] by blast
  then show ?thesis
    using initial_slashes_chars[of p] by (auto simp: normpath_def Let_def)
qed

lemma path_join_chars: "set (path_join a b) \<subseteq> set a \<union> set b \<union> {CHR ''/''}"
  by (auto simp: path_join_def)

lemma no_expansion_full_path:
  assumes "no_expansion T" "no_expansion d"
  shows "no_expansion (normpath (path_join T d))"
  using assms normpath_chars[of "path_join T d"] path_join_chars[of T d]
  unfolding no_expansion_def by fastforce

lemma parse_file_paths_literal: "no_expansion s \<Longrightarrow> parse_file_paths e s = Inr [s]"
  unfolding parse_file_paths_def no_expansion_def by (simp only: simp_thms if_True)

lemma get_path_template:
  "\<not> startswith d ''/'' \<Longrightarrow> \<not> startswith d ''~'' \<Longrightarrow>
   get_path e d [] = normpath (path_join (TEMPLATE_DIR e) d)"
  by (simp add: get_path_def)

section \<open>Path mappings\<close>

lemma compute_spec_symlink_many_sources:
  assumes "map_of spec ''src'' = Some (YStr src)" "map_of spec ''symlink'' = Some l"
    and "parse_file_paths e (get_path e src []) = Inr srcs" "length srcs > 1"
  shows "\<exists>err. compute_spec e output_dir working_dir lnk spec = Inl err"
  using assms
  by (auto simp: compute_spec_def ebind_def wrap_def str_attr_def Let_def
           split: option.splits sum.splits yaml.splits)

lemma compute_specs_failing_spec:
  assumes "\<forall>lnk. \<exists>err. compute_spec e output_dir working_dir lnk spec = Inl err"
  shows "YDict spec \<in> set specs \<Longrightarrow>
         \<exists>err. compute_specs e output_dir working_dir acc lnk specs = Inl err"
proof (induction specs arbitrary: acc lnk)
  case Nil
  then show ?case by simp
next
  case (Cons s specs)
  show ?case
  proof (cases "s = YDict spec")
    case True
    with assms show ?thesis
      by (metis compute_specs.simps(2) ebind_def old.sum.simps(5))
  next
    case False
    with Cons.prems have "YDict spec \<in> set specs" by simp
    from Cons.IH[OF this] show ?thesis
      by (cases s) (auto simp: ebind_def split: sum.splits)
  qed
qed

text \<open>
  \<^bold>\<open>C9.\<close>  A file specification with \<^verbatim>\<open>src\<close> and \<^verbatim>\<open>symlink\<close> whose \<^verbatim>\<open>src\<close> expands to
  more than one path makes \<^verbatim>\<open>compute_mapping\<close> raise: whatever the other checks of its
  round say, the round ends at the latest in line 61, and no mapping list is returned.
\<close>

theorem compute_mapping_rejects_symlink_with_many_sources:
  assumes "map_of conf ''files'' = Some (YList specs)" "YDict spec \<in> set specs"
    and "map_of spec ''src'' = Some (YStr src)" "map_of spec ''symlink'' = Some l"
    and "parse_file_paths e (get_path e src []) = Inr srcs" "length srcs > 1"
  shows "\<exists>err. compute_mapping e conf output_dir working_dir = Inl err"
proof -
  have "\<forall>lnk. \<exists>err. compute_spec e output_dir working_dir lnk spec = Inl err"
    using compute_spec_symlink_many_sources[OF assms(3-6)] by blast
  from compute_specs_failing_spec[OF this assms(2)] show ?thesis
    using assms(1) by (simp add: compute_mapping_def)
qed

theorem compute_mapping_rejects_symlink_with_many_sources_witness:
  "\<exists>err. compute_mapping mapping_env
      [(''files'', YList [YDict [(''dst'', YStr ''foo.txt''), (''src'', YStr ''foo[1-2].template''),
                                (''symlink'', YStr ''/usr/local/bin/foo'')]])]
      ''/tmp/dst'' ''/tmp/wrk'' = Inl err"
proof -
  let ?spec = "[(''dst'', YStr ''foo.txt''), (''src'', YStr ''foo[1-2].template''),
                (''symlink'', YStr ''/usr/local/bin/foo'')]"
  have f: "map_of [(''files'', YList [YDict ?spec])] ''files'' = Some (YList [YDict ?spec])"
    by simp
  have i: "YDict ?spec \<in> set [YDict ?spec]"
    by (rule list.set_intros(1))
  have s: "map_of ?spec ''src'' = Some (YStr ''foo[1-2].template'')"
    by simp
  have l: "map_of ?spec ''symlink'' = Some (YStr ''/usr/local/bin/foo'')"
    by simp
  have p: "parse_file_paths mapping_env (get_path mapping_env ''foo[1-2].template'' [])
             = Inr [''/tmp/src/foo1.template'', ''/tmp/src/foo2.template'']"
    by code_simp
  have n: "length [''/tmp/src/foo1.template'', ''/tmp/src/foo2.template''] > 1"
    by simp
  show ?thesis
    by (rule compute_mapping_rejects_symlink_with_many_sources[OF f i s l p n])
qed

text \<open>
  \<^bold>\<open>C3.\<close>  With \<^verbatim>\<open>src\<close>, \<^verbatim>\<open>symlink\<close> and a single source, the first round of the loop
  reaches the dictionary display of line 68 with \<^verbatim>\<open>spec_full_lnk\<close> unbound, because lines
  62 and 63 are indented under the \<^verbatim>\<open>raise\<close> of line 61: the call raises
  \<^verbatim>\<open>UnboundLocalError\<close> instead of returning the mapping with its link.  The branch without
  \<^verbatim>\<open>src\<close> has the same two assignments one level out (lines 99 and 100) and returns the
  link, as the second equation shows for the specification of the repository's test.
\<close>

theorem compute_mapping_symlink_with_single_source:
  "compute_mapping mapping_env
      [(''files'', YList [YDict [(''dst'', YStr ''foo.txt''), (''src'', YStr ''foo.template''),
                                (''symlink'', YStr ''/usr/local/bin/foo'')]])]
      ''/tmp/dst'' ''/tmp/wrk'' = Inl (PyUnboundLocalError ''spec_full_lnk'') \<and>
   compute_mapping mapping_env
      [(''files'', YList [YDict [(''dst'', YStr ''foo.sh''),
                                (''symlink'', YStr ''/usr/local/bin/foo'')]])]
      ''/tmp/dst'' ''/tmp/wrk'' =
     Inr [\<lparr>chmod = YStr [], chown = YStr [], dst_key = YStr ''foo.sh'',
           full_dst = ''/tmp/dst/foo.sh'', full_lnk = ''/usr/local/bin/foo'',
           full_src = ''/tmp/src/foo.sh'', full_wrk = ''/tmp/wrk/foo.sh'',
           rel_dst = ''foo.sh'', rel_lnk = ''../../usr/local/bin/foo'',
           rel_src = ''foo.sh'', translate = YBool True\<rparr>]"
  by code_simp

text \<open>
  \<^bold>\<open>C8\<close>, as the claim states it, fails: the literal relative path \<^verbatim>\<open>./foo.txt\<close> names the
  existing file \<^verbatim>\<open>/tmp/src/foo.txt\<close> and has none of \<^verbatim>\<open>*\<close>, \<^verbatim>\<open>[\<close>, \<^verbatim>\<open>]\<close>, yet
  \<^verbatim>\<open>rel_src\<close> and \<^verbatim>\<open>rel_dst\<close> are the normalised \<^verbatim>\<open>foo.txt\<close>, not \<^verbatim>\<open>dst\<close>.
\<close>

theorem compute_mapping_bare_dst_counterexample:
  "compute_mapping mapping_env [(''files'', YList [YDict [(''dst'', YStr ''./foo.txt'')]])]
      ''/tmp/dst'' ''/tmp/wrk'' =
     Inr [\<lparr>chmod = YStr [], chown = YStr [], dst_key = YStr ''./foo.txt'',
           full_dst = ''/tmp/dst/foo.txt'', full_lnk = [],
           full_src = ''/tmp/src/foo.txt'', full_wrk = ''/tmp/wrk/foo.txt'',
           rel_dst = ''foo.txt'', rel_lnk = [],
           rel_src = ''foo.txt'', translate = YBool True\<rparr>]"
  by code_simp

text \<open>
  \<^bold>\<open>C8\<close>, amended.  For every file specification with \<^verbatim>\<open>dst\<close> alone (no \<^verbatim>\<open>src\<close>, no
  \<^verbatim>\<open>symlink\<close>, no \<^verbatim>\<open>translate\<close>) whose value is a relative path in normal form with none
  of \<^verbatim>\<open>*\<close>, \<^verbatim>\<open>[\<close>, \<^verbatim>\<open>]\<close> and no leading \<^verbatim>\<open>~\<close>, naming an existing file under a template
  root that has none of \<^verbatim>\<open>*\<close>, \<^verbatim>\<open>[\<close>, \<^verbatim>\<open>]\<close> either (the working directory of the process
  being absolute, as \<^verbatim>\<open>os.getcwd\<close> gives it), \<^verbatim>\<open>compute_mapping\<close> yields exactly one
  mapping, whose \<^verbatim>\<open>rel_src\<close> and \<^verbatim>\<open>rel_dst\<close> both equal \<^verbatim>\<open>dst\<close> and whose \<^verbatim>\<open>translate\<close>
  is true.
\<close>

theorem compute_mapping_bare_dst:
  assumes files: "map_of conf ''files'' = Some (YList [YDict spec])"
    and spec: "map_of spec ''dst'' = Some (YStr dst)" "map_of spec ''src'' = None"
      "map_of spec ''symlink'' = None" "map_of spec ''translate'' = None"
    and dst: "plain_relative dst" "no_expansion dst"
    and root: "no_expansion (TEMPLATE_DIR e)" "startswith (getcwd e) ''/''"
    and ex: "path_exists e (get_path e dst [])"
  shows "compute_mapping e conf output_dir working_dir =
           Inr [\<lparr>chmod = spec_get spec ''chmod'' (YStr []),
                 chown = spec_get spec ''chown'' (YStr []),
                 dst_key = YStr dst,
                 full_dst = path_join output_dir dst,
                 full_lnk = [],
                 full_src = get_path e dst [],
                 full_wrk = path_join working_dir dst,
                 rel_dst = dst,
                 rel_lnk = [],
                 rel_src = dst,
                 translate = YBool True\<rparr>]"
proof -
  have names: "\<forall>c\<in>set (split_char CHR ''/'' dst). is_name c"
    using dst(1) by (simp add: plain_relative_def list_all_iff)
  have g: "get_path e dst [] = normpath (path_join (TEMPLATE_DIR e) dst)"
    using names_not_absolute(1)[OF names] dst(1)
    by (simp add: get_path_template plain_relative_def)
  have p: "parse_file_paths e (get_path e dst []) = Inr [get_path e dst []]"
    unfolding g by (rule parse_file_paths_literal[OF no_expansion_full_path[OF root(1) dst(2)]])
  have r: "relpath e (get_path e dst []) (TEMPLATE_DIR e) = Inr dst"
    unfolding g by (rule relpath_under_root[OF root(2) names])
  have "compute_spec e output_dir working_dir None spec =
          Inr ([\<lparr>chmod = spec_get spec ''chmod'' (YStr []),
                 chown = spec_get spec ''chown'' (YStr []),
                 dst_key = YStr dst,
                 full_dst = path_join output_dir dst,
                 full_lnk = [],
                 full_src = get_path e dst [],
                 full_wrk = path_join working_dir dst,
                 rel_dst = dst,
                 rel_lnk = [],
                 rel_src = dst,
                 translate = YBool True\<rparr>], Some ([], []))"
    using spec ex
    by (simp add: compute_spec_def ebind_def wrap_def str_attr_def p r spec_get_def)
  then show ?thesis
    using files by (simp add: compute_mapping_def ebind_def)
qed

theorem compute_mapping_bare_dst_witness:
  "compute_mapping mapping_env [(''files'', YList [YDict [(''dst'', YStr ''conf/foo.txt'')]])]
      ''/tmp/dst'' ''/tmp/wrk'' =
     Inr [\<lparr>chmod = YStr [], chown = YStr [], dst_key = YStr ''conf/foo.txt'',
           full_dst = ''/tmp/dst/conf/foo.txt'', full_lnk = [],
           full_src = ''/tmp/src/conf/foo.txt'', full_wrk = ''/tmp/wrk/conf/foo.txt'',
           rel_dst = ''conf/foo.txt'', rel_lnk = [],
           rel_src = ''conf/foo.txt'', translate = YBool True\<rparr>]"
proof -
  let ?spec = "[(''dst'', YStr ''conf/foo.txt'')]"
  have f: "map_of [(''files'', YList [YDict ?spec])] ''files'' = Some (YList [YDict ?spec])"
    by simp
  have s: "map_of ?spec ''dst'' = Some (YStr ''conf/foo.txt'')" "map_of ?spec ''src'' = None"
      "map_of ?spec ''symlink'' = None" "map_of ?spec ''translate'' = None"
    by simp_all
  have d: "plain_relative ''conf/foo.txt''" "no_expansion ''conf/foo.txt''"
    "no_expansion (TEMPLATE_DIR mapping_env)" "startswith (getcwd mapping_env) ''/''"
    by code_simp+
  have x: "path_exists mapping_env (get_path mapping_env ''conf/foo.txt'' [])"
    by (simp add: mapping_env_def)
  have v: "spec_get ?spec ''chmod'' (YStr []) = YStr []" "spec_get ?spec ''chown'' (YStr []) = YStr []"
    "path_join ''/tmp/dst'' ''conf/foo.txt'' = ''/tmp/dst/conf/foo.txt''"
    "path_join ''/tmp/wrk'' ''conf/foo.txt'' = ''/tmp/wrk/conf/foo.txt''"
    "get_path mapping_env ''conf/foo.txt'' [] = ''/tmp/src/conf/foo.txt''"
    by code_simp+
  show ?thesis
    using compute_mapping_bare_dst[OF f s d x, of "''/tmp/dst''" "''/tmp/wrk''"]
    unfolding v .
qed

section \<open>The merge leaves its arguments alone\<close>











subsection \<open>The store merge computes the merge of the values\<close>




















text \<open>The branches of \<^verbatim>\<open>merge_yaml_data\<close>.\<close>

lemma deep_str: "deref h a = Some (OStr s) \<Longrightarrow> deep (Suc k) h a = Some (YStr s)"
  by simp

lemma deep_scalar: "deref h a = Some (OScalar c) \<Longrightarrow> deep (Suc k) h a = Some (yaml_of_scalar c)"
  by simp
















text \<open>
  On the example store the two models of the merge agree: the value at the returned
  address is the merge of the values at the two argument addresses.
\<close>

lemma merge_yaml_data_store_example:
  "deep 3 ex_store 2 = Some (YDict [(''a'', YList [YInt 1])]) \<and>
   deep 3 ex_store 5 = Some (YDict [(''a'', YList [YInt 2]), (''b'', YInt 2)]) \<and>
   (case merge_yaml_data_store 3 ex_store 2 5 of
      Inr (r, h') \<Rightarrow> deep 3 h' r
    | Inl err \<Rightarrow> None)
     = Some (merge_yaml_data (YDict [(''a'', YList [YInt 1])])
               (YDict [(''a'', YList [YInt 2]), (''b'', YInt 2)]))"
  by code_simp




end
